theory Spec2Isabelle
  imports Main "HOL-Library.Word"
begin

unbundle bit_operations_syntax

section \<open>The Intel command set of the flash writer (intel.c)\<close>

text \<open>
  A shallow embedding of \<^verbatim>\<open>flashwriter/src/intel.c\<close>: the Intel standard command set
  for parallel NOR flash. The C functions talk to the device through four external
  primitives; the embedding records every bus transaction in a trace and takes the words
  the device answers from a tape of responses, so that each C function becomes a function
  from a state to either a fault or a result with the next state.
\<close>

subsection \<open>Data\<close>

type_synonym u8 = "8 word"
type_synonym u32 = "32 word"

text \<open>
  One erase region of \<^verbatim>\<open>devinf->flgeo.region[i]\<close>. \<^verbatim>\<open>flash.h\<close> is not part of the
  sources; the three fields are the ones intel.c reads, held as unsigned 32-bit values.
\<close>

record flregion =
  region_offset :: u32
  region_nblks :: u32
  region_blksiz :: u32

text \<open>
  The fields of \<^verbatim>\<open>dev_info_t\<close> that intel.c reads. \<open>di_flgeo\<close> is the array
  \<^verbatim>\<open>flgeo.region[0 .. flgeo.tot_regions - 1]\<close>: its length is \<^verbatim>\<open>flgeo.tot_regions\<close>.
\<close>

record dev_info =
  di_addr_step :: u8
  di_addr_shift :: u8
  di_part_mode :: u8
  di_flgeo :: "flregion list"

text \<open>
  The file's static variables (lines 112 to 115). \<open>devinf\<close> is the structure the static
  pointer refers to; the operations dereference it without a test, so they are meant to
  run after \<^verbatim>\<open>intel_init_dev_params\<close> only.
\<close>

record context_t =
  sr7flag :: u32
  sr6flag :: u32
  sr5flag :: u32
  sr4flag :: u32
  sr3flag :: u32
  sr2flag :: u32
  sr1flag :: u32
  devinf :: dev_info
  addr_step :: u8
  addr_shift :: u8

text \<open>A bus transaction, or one run of the calibrated delay loop.\<close>

datatype event =
  CmdWrite u32 u8
  | DataWrite u32 u32
  | DataRead u32
  | StatusDelay

text \<open>
  The state the C functions run in: the static variables, the transactions issued so far
  (oldest first) and the words the device will answer to the coming reads.
\<close>

record flash_state =
  ctx :: context_t
  trace :: "event list"
  resp :: "u32 list"

text \<open>
  What stops a C function from returning a value: \<open>NoResponse\<close>, the device answers no
  further read (the tape is used up, so a busy-wait on it goes on for ever); and
  \<open>DivByZero\<close>, the undefined \<^verbatim>\<open>nbytes % addr_step\<close> when \<^verbatim>\<open>addr_step\<close> is 0.
\<close>

datatype fault = NoResponse | DivByZero

text \<open>
  The status conditions of lines 56 to 62. \<^verbatim>\<open>INTEL_STATUS_READY\<close> is 0; the others are
  the \<^verbatim>\<open>ERR_FLASH_*\<close> codes of \<^verbatim>\<open>errors.h\<close> (absent), which \<^verbatim>\<open>errmap\<close> in flashwriter.c
  lists at the distinct non-zero indices 7, 8, 10, 11 and 12. So a C test
  \<^verbatim>\<open>if (status)\<close> is the test \<open>status \<noteq> INTEL_STATUS_READY\<close>.
\<close>

datatype status_t =
  INTEL_STATUS_READY
  | INTEL_STATUS_CMDSEQ_ERR
  | INTEL_STATUS_ERASE_ERR
  | INTEL_STATUS_PROG_ERR
  | INTEL_STATUS_VOLTAGE_ERR
  | INTEL_STATUS_LOCK_ERR

subsection \<open>Command bytes (lines 32 to 54)\<close>

definition INTEL_BLOCK_ERASE :: u8 where "INTEL_BLOCK_ERASE = 0x20"
definition INTEL_PROGRAM_WORD :: u8 where "INTEL_PROGRAM_WORD = 0x40"
definition INTEL_CLEAR_STATUS :: u8 where "INTEL_CLEAR_STATUS = 0x50"
definition INTEL_CHANGE_LOCK :: u8 where "INTEL_CHANGE_LOCK = 0x60"
definition INTEL_READ_STATUS :: u8 where "INTEL_READ_STATUS = 0x70"
definition INTEL_READ_ARRAY :: u8 where "INTEL_READ_ARRAY = 0xff"
definition INTEL_SET_LOCK_BIT :: u8 where "INTEL_SET_LOCK_BIT = 0x01"
definition INTEL_CLEAR_LOCK_BITS :: u8 where "INTEL_CLEAR_LOCK_BITS = 0xd0"
definition INTEL_CONFIRM :: u8 where "INTEL_CONFIRM = 0xd0"

definition INTEL_READY :: u8 where "INTEL_READY = 0x80"
definition INTEL_ERASE_SUSPEND :: u8 where "INTEL_ERASE_SUSPEND = 0x40"
definition INTEL_ERASE_ERRORS :: u8 where "INTEL_ERASE_ERRORS = 0x20"
definition INTEL_PROGRAM_ERRORS :: u8 where "INTEL_PROGRAM_ERRORS = 0x10"
definition INTEL_VOLTAGE_ERRORS :: u8 where "INTEL_VOLTAGE_ERRORS = 0x08"
definition INTEL_PROGRAM_SUSPEND :: u8 where "INTEL_PROGRAM_SUSPEND = 0x04"
definition INTEL_LOCKBIT_ERRORS :: u8 where "INTEL_LOCKBIT_ERRORS = 0x02"

subsection \<open>The external primitives\<close>

text \<open>
  Modelled from the spec: \<^verbatim>\<open>fl_cmdwrite\<close> is declared extern in intel.c and defined
  elsewhere. The spec calls it "write command byte at address", a command-space
  transaction; the model appends the transaction to the trace.
\<close>

definition fl_cmdwrite :: "u32 \<Rightarrow> u8 \<Rightarrow> flash_state \<Rightarrow> flash_state" where
  "fl_cmdwrite cmdaddr cmddata s = s\<lparr>trace := trace s @ [CmdWrite cmdaddr cmddata]\<rparr>"

text \<open>
  Modelled from the spec: \<^verbatim>\<open>fl_write\<close> is declared extern in intel.c and defined
  elsewhere. The spec calls it "write data at address", a data-space transaction; the
  model appends the transaction to the trace.
\<close>

definition fl_write :: "u32 \<Rightarrow> u32 \<Rightarrow> flash_state \<Rightarrow> flash_state" where
  "fl_write addr data s = s\<lparr>trace := trace s @ [DataWrite addr data]\<rparr>"

text \<open>
  Modelled from the spec: \<^verbatim>\<open>fl_read\<close> is declared extern in intel.c and defined
  elsewhere. The spec calls it "read data at address"; the model appends the transaction
  to the trace and returns the next word of the tape, or \<open>NoResponse\<close> when none is left.
\<close>

definition fl_read :: "u32 \<Rightarrow> flash_state \<Rightarrow> fault + (u32 \<times> flash_state)" where
  "fl_read addr s =
     (case resp s of
        [] \<Rightarrow> Inl NoResponse
      | r # rs \<Rightarrow> Inr (r, s\<lparr>trace := trace s @ [DataRead addr], resp := rs\<rparr>))"

subsection \<open>Address conversion (lines 66 and 67)\<close>

text \<open>
  \<^verbatim>\<open>blkaddr << devinf->addr_shift\<close> and \<^verbatim>\<open>addr >> devinf->addr_shift\<close> on
  \<^verbatim>\<open>uint32_t\<close>: the bits shifted out at the top are lost. (A shift by 32 or more is
  undefined in C; \<open>push_bit\<close> and \<open>drop_bit\<close> give 0 there.)
\<close>

definition BLKADDR_TO_ADDR :: "flash_state \<Rightarrow> u32 \<Rightarrow> u32" where
  "BLKADDR_TO_ADDR s blkaddr = push_bit (unat (di_addr_shift (devinf (ctx s)))) blkaddr"

definition ADDR_TO_BLKADDR :: "flash_state \<Rightarrow> u32 \<Rightarrow> u32" where
  "ADDR_TO_BLKADDR s addr = drop_bit (unat (di_addr_shift (devinf (ctx s)))) addr"

subsection \<open>Initializer, delay, clear status, reset of a block\<close>

text \<open>
  \<^verbatim>\<open>intel_init_dev_params\<close>. \<^verbatim>\<open>fl_form_cmd\<close>, which replicates a status bit across the
  interleave, is external and is a parameter here.
\<close>

definition intel_init_dev_params ::
  "(u8 \<Rightarrow> u32) \<Rightarrow> dev_info \<Rightarrow> flash_state \<Rightarrow> flash_state" where
  "intel_init_dev_params fl_form_cmd devinfo s =
     s\<lparr>ctx :=
        \<lparr>sr7flag = fl_form_cmd INTEL_READY,
         sr6flag = fl_form_cmd INTEL_ERASE_SUSPEND,
         sr5flag = fl_form_cmd INTEL_ERASE_ERRORS,
         sr4flag = fl_form_cmd INTEL_PROGRAM_ERRORS,
         sr3flag = fl_form_cmd INTEL_VOLTAGE_ERRORS,
         sr2flag = fl_form_cmd INTEL_PROGRAM_SUSPEND,
         sr1flag = fl_form_cmd INTEL_LOCKBIT_ERRORS,
         devinf = devinfo,
         addr_step = di_addr_step devinfo,
         addr_shift = di_addr_shift devinfo\<rparr>\<rparr>"

text \<open>\<^verbatim>\<open>intel_status_delay\<close>: the empty counting loop, one event of the trace.\<close>

definition intel_status_delay :: "flash_state \<Rightarrow> flash_state" where
  "intel_status_delay s = s\<lparr>trace := trace s @ [StatusDelay]\<rparr>"

definition intel_clear_status :: "flash_state \<Rightarrow> flash_state" where
  "intel_clear_status s = fl_cmdwrite 0 INTEL_CLEAR_STATUS s"

definition intel_rst_blk :: "u32 \<Rightarrow> flash_state \<Rightarrow> flash_state" where
  "intel_rst_blk blkaddr s =
     intel_status_delay (fl_cmdwrite blkaddr INTEL_READ_ARRAY (intel_clear_status s))"

subsection \<open>Status register\<close>

definition intel_read_status :: "u32 \<Rightarrow> flash_state \<Rightarrow> fault + (u32 \<times> flash_state)" where
  "intel_read_status blkaddr s =
     (let s1 = fl_cmdwrite blkaddr INTEL_READ_STATUS s
      in fl_read (BLKADDR_TO_ADDR s1 blkaddr) s1)"

text \<open>
  The chain of tests of \<^verbatim>\<open>intel_status_check\<close> (lines 257 to 270) on the status word
  just read, in the order of the source.
\<close>

definition status_decode :: "context_t \<Rightarrow> u32 \<Rightarrow> status_t" where
  "status_decode c status =
     (if status AND sr5flag c = sr5flag c then
        (if status AND sr4flag c = sr4flag c then INTEL_STATUS_CMDSEQ_ERR
         else INTEL_STATUS_ERASE_ERR)
      else if status AND sr4flag c = sr4flag c then INTEL_STATUS_PROG_ERR
      else if status AND sr3flag c = sr3flag c then INTEL_STATUS_PROG_ERR
      else if status AND sr2flag c = sr2flag c then INTEL_STATUS_VOLTAGE_ERR
      else if status AND sr1flag c = sr1flag c then INTEL_STATUS_LOCK_ERR
      else INTEL_STATUS_READY)"

definition intel_status_check ::
  "u32 \<Rightarrow> flash_state \<Rightarrow> fault + (status_t \<times> flash_state)" where
  "intel_status_check blkaddr s =
     (case intel_read_status blkaddr s of
        Inl e \<Rightarrow> Inl e
      | Inr (status, s1) \<Rightarrow> Inr (status_decode (ctx s1) status, s1))"

subsection \<open>The busy-wait on the ready flag\<close>

text \<open>
  The loop that the four operations share (lines 198 to 200, 228 to 230, 282 to 284 and
  302 to 304): read the status word until all bits of \<^verbatim>\<open>sr7flag\<close> are set in it. At
  least one read is made in each of the four places. \<open>addr\<close> is the address expression,
  evaluated at every read as in the source.
\<close>

function poll_ready ::
  "(flash_state \<Rightarrow> u32) \<Rightarrow> flash_state \<Rightarrow> fault + (u32 \<times> flash_state)" where
  "poll_ready addr s =
     (case fl_read (addr s) s of
        Inl e \<Rightarrow> Inl e
      | Inr (data, s1) \<Rightarrow>
          (if data AND sr7flag (ctx s1) \<noteq> sr7flag (ctx s1) then poll_ready addr s1
           else Inr (data, s1)))"
  by pat_completeness auto

lemma fl_read_Inr:
  "fl_read a s = Inr (d, s') \<Longrightarrow>
     resp s = d # resp s' \<and> ctx s' = ctx s \<and> trace s' = trace s @ [DataRead a]"
  by (auto simp: fl_read_def split: list.splits)

termination poll_ready
  by (relation "measure (\<lambda>(addr, s). length (resp s))") (auto dest: fl_read_Inr)

declare poll_ready.simps [simp del]

subsection \<open>Lock and unlock\<close>

definition intel_lock_block ::
  "u32 \<Rightarrow> flash_state \<Rightarrow> fault + (status_t \<times> flash_state)" where
  "intel_lock_block blkaddr s =
     (let s1 = fl_cmdwrite blkaddr INTEL_CHANGE_LOCK s;
          s2 = fl_cmdwrite blkaddr INTEL_SET_LOCK_BIT s1;
          s3 = intel_status_delay s2
      in case poll_ready (\<lambda>t. BLKADDR_TO_ADDR t blkaddr) s3 of
           Inl e \<Rightarrow> Inl e
         | Inr (data, s4) \<Rightarrow>
             (case intel_status_check blkaddr (intel_status_delay s4) of
                Inl e \<Rightarrow> Inl e
              | Inr (status, s5) \<Rightarrow> Inr (status, intel_rst_blk blkaddr s5)))"

definition intel_unlock_block ::
  "u32 \<Rightarrow> flash_state \<Rightarrow> fault + (status_t \<times> flash_state)" where
  "intel_unlock_block blkaddr s =
     (let s1 = fl_cmdwrite blkaddr INTEL_CHANGE_LOCK s;
          s2 = fl_cmdwrite blkaddr INTEL_CLEAR_LOCK_BITS s1;
          s3 = intel_status_delay s2
      in case poll_ready (\<lambda>t. BLKADDR_TO_ADDR t blkaddr) s3 of
           Inl e \<Rightarrow> Inl e
         | Inr (data, s4) \<Rightarrow>
             (case intel_status_check blkaddr (intel_status_delay s4) of
                Inl e \<Rightarrow> Inl e
              | Inr (status, s5) \<Rightarrow> Inr (status, intel_rst_blk blkaddr s5)))"

subsection \<open>Erase of one block\<close>

text \<open>Lines 194 to 205 of \<^verbatim>\<open>intel_blk_erase_dev\<close>: what follows the optional unlock.\<close>

definition blk_erase_cmds ::
  "u32 \<Rightarrow> flash_state \<Rightarrow> fault + (status_t \<times> flash_state)" where
  "blk_erase_cmds blkaddr s =
     (let s1 = fl_cmdwrite blkaddr INTEL_BLOCK_ERASE s;
          s2 = fl_cmdwrite blkaddr INTEL_CONFIRM s1;
          s3 = intel_status_delay s2
      in case poll_ready (\<lambda>t. BLKADDR_TO_ADDR t blkaddr) s3 of
           Inl e \<Rightarrow> Inl e
         | Inr (data, s4) \<Rightarrow>
             (case intel_status_check blkaddr s4 of
                Inl e \<Rightarrow> Inl e
              | Inr (status, s5) \<Rightarrow> Inr (status, intel_rst_blk blkaddr s5)))"

text \<open>
  \<^verbatim>\<open>intel_blk_erase_dev\<close>. \<open>no_unlock\<close> is the build option
  \<^verbatim>\<open>NO_INTEL_UNLOCK_BLOCKS\<close>: unless it is defined the block is unlocked first, and a
  failed unlock is returned at once.
\<close>

definition intel_blk_erase_dev ::
  "bool \<Rightarrow> u32 \<Rightarrow> flash_state \<Rightarrow> fault + (status_t \<times> flash_state)" where
  "intel_blk_erase_dev no_unlock blkaddr s =
     (if no_unlock then blk_erase_cmds blkaddr s
      else
        (case intel_unlock_block blkaddr s of
           Inl e \<Rightarrow> Inl e
         | Inr (status, s1) \<Rightarrow>
             (if status \<noteq> INTEL_STATUS_READY then Inr (status, s1)
              else blk_erase_cmds blkaddr s1)))"

subsection \<open>What the primitives leave alone\<close>

lemma fl_cmdwrite_fields [simp]:
  "ctx (fl_cmdwrite a c s) = ctx s"
  "resp (fl_cmdwrite a c s) = resp s"
  "trace (fl_cmdwrite a c s) = trace s @ [CmdWrite a c]"
  by (simp_all add: fl_cmdwrite_def)

lemma fl_write_fields [simp]:
  "ctx (fl_write a d s) = ctx s"
  "resp (fl_write a d s) = resp s"
  "trace (fl_write a d s) = trace s @ [DataWrite a d]"
  by (simp_all add: fl_write_def)

lemma intel_status_delay_fields [simp]:
  "ctx (intel_status_delay s) = ctx s"
  "resp (intel_status_delay s) = resp s"
  "trace (intel_status_delay s) = trace s @ [StatusDelay]"
  by (simp_all add: intel_status_delay_def)

lemma intel_clear_status_fields [simp]:
  "ctx (intel_clear_status s) = ctx s"
  "resp (intel_clear_status s) = resp s"
  "trace (intel_clear_status s) = trace s @ [CmdWrite 0 INTEL_CLEAR_STATUS]"
  by (simp_all add: intel_clear_status_def)

lemma intel_rst_blk_fields [simp]:
  "ctx (intel_rst_blk b s) = ctx s"
  "resp (intel_rst_blk b s) = resp s"
  "trace (intel_rst_blk b s) =
     trace s @ [CmdWrite 0 INTEL_CLEAR_STATUS, CmdWrite b INTEL_READ_ARRAY, StatusDelay]"
  by (simp_all add: intel_rst_blk_def)

lemma BLKADDR_TO_ADDR_ctx: "ctx t = ctx s \<Longrightarrow> BLKADDR_TO_ADDR t b = BLKADDR_TO_ADDR s b"
  by (simp add: BLKADDR_TO_ADDR_def)

lemma ADDR_TO_BLKADDR_ctx: "ctx t = ctx s \<Longrightarrow> ADDR_TO_BLKADDR t a = ADDR_TO_BLKADDR s a"
  by (simp add: ADDR_TO_BLKADDR_def)

text \<open>A state is its three fields.\<close>

lemma flash_state_eqI:
  fixes s t :: flash_state
  shows "ctx s = ctx t \<Longrightarrow> trace s = trace t \<Longrightarrow> resp s = resp t \<Longrightarrow> s = t"
  by simp

subsection \<open>The busy-wait, run on a tape\<close>

text \<open>
  Whenever the busy-wait returns, it has made at least one read, only reads, each at the
  address of the entry state, and the word it returns has the ready flag.
\<close>

lemma poll_ready_Inr:
  "poll_ready addr s = Inr (d, s') \<Longrightarrow> (\<And>t. ctx t = ctx s \<Longrightarrow> addr t = a) \<Longrightarrow>
     ctx s' = ctx s \<and> d AND sr7flag (ctx s) = sr7flag (ctx s) \<and>
     (\<exists>k. trace s' = trace s @ replicate (Suc k) (DataRead a) \<and>
          length (resp s) = Suc k + length (resp s'))"
proof (induction addr s rule: poll_ready.induct)
  case (1 addr s)
  from "1.prems"(1) obtain r s1 where rd: "fl_read (addr s) s = Inr (r, s1)"
    by (subst (asm) poll_ready.simps) (auto split: sum.splits)
  note f = fl_read_Inr [OF rd]
  have a: "addr s = a" by (rule "1.prems"(2)) simp
  show ?case
  proof (cases "r AND sr7flag (ctx s1) \<noteq> sr7flag (ctx s1)")
    case True
    with rd "1.prems"(1) have rec: "poll_ready addr s1 = Inr (d, s')"
      by (subst (asm) poll_ready.simps) simp
    have "ctx s' = ctx s1 \<and> d AND sr7flag (ctx s1) = sr7flag (ctx s1) \<and>
      (\<exists>k. trace s' = trace s1 @ replicate (Suc k) (DataRead a) \<and>
           length (resp s1) = Suc k + length (resp s'))"
      using "1.IH" [OF rd refl True rec] "1.prems"(2) f by simp
    then obtain k where k: "ctx s' = ctx s1" "d AND sr7flag (ctx s1) = sr7flag (ctx s1)"
      "trace s' = trace s1 @ replicate (Suc k) (DataRead a)"
      "length (resp s1) = Suc k + length (resp s')"
      by blast
    have "trace s' = trace s @ replicate (Suc (Suc k)) (DataRead a)"
      using k(3) f a by simp
    moreover have "length (resp s) = Suc (Suc k) + length (resp s')"
      using k(4) f by simp
    ultimately show ?thesis using k(1,2) f by metis
  next
    case False
    with rd "1.prems"(1) have "d = r" "s' = s1"
      by (subst (asm) poll_ready.simps, simp)+
    with f a False show ?thesis
      by (intro conjI exI [of _ 0]) simp_all
  qed
qed

text \<open>
  On a tape that starts with words without the ready flag and then has one with it, the
  busy-wait reads exactly up to that word and returns it.
\<close>

lemma poll_ready_tape:
  "resp s = busy @ r # rest \<Longrightarrow>
   list_all (\<lambda>b. b AND sr7flag (ctx s) \<noteq> sr7flag (ctx s)) busy \<Longrightarrow>
   r AND sr7flag (ctx s) = sr7flag (ctx s) \<Longrightarrow>
   (\<And>t. ctx t = ctx s \<Longrightarrow> addr t = a) \<Longrightarrow>
   poll_ready addr s =
     Inr (r, s\<lparr>trace := trace s @ replicate (Suc (length busy)) (DataRead a), resp := rest\<rparr>)"
proof (induction busy arbitrary: s)
  case Nil
  then show ?case
    by (subst poll_ready.simps) (simp add: fl_read_def)
next
  case (Cons b busy)
  let ?s1 = "s\<lparr>trace := trace s @ [DataRead a], resp := busy @ r # rest\<rparr>"
  have a: "addr s = a" by (rule Cons.prems(4)) simp
  have rd: "fl_read (addr s) s = Inr (b, ?s1)"
    using Cons.prems(1) a by (simp add: fl_read_def)
  have "poll_ready addr ?s1 =
    Inr (r, ?s1\<lparr>trace := trace ?s1 @ replicate (Suc (length busy)) (DataRead a), resp := rest\<rparr>)"
    using Cons.prems by (intro Cons.IH) simp_all
  then show ?case
    using rd Cons.prems(2) by (subst poll_ready.simps) simp
qed

subsection \<open>Status check, lock and unlock, block erase: results and traces\<close>

definition reset_events :: "u32 \<Rightarrow> event list" where
  "reset_events blkaddr =
     [CmdWrite 0 INTEL_CLEAR_STATUS, CmdWrite blkaddr INTEL_READ_ARRAY, StatusDelay]"

definition ends_with_reset :: "u32 \<Rightarrow> flash_state \<Rightarrow> bool" where
  "ends_with_reset blkaddr s =
     (length (reset_events blkaddr) \<le> length (trace s) \<and>
      drop (length (trace s) - length (reset_events blkaddr)) (trace s) = reset_events blkaddr)"

lemma ends_with_resetI: "trace s = pre @ reset_events b \<Longrightarrow> ends_with_reset b s"
  by (simp add: ends_with_reset_def)

lemma ends_with_reset_rst_blk: "ends_with_reset b (intel_rst_blk b s)"
  by (rule ends_with_resetI [where pre = "trace s"]) (simp add: reset_events_def)

lemma poll_ready_blk_Inr:
  assumes "poll_ready (\<lambda>t. BLKADDR_TO_ADDR t b) s = Inr (d, s')"
  shows "ctx s' = ctx s \<and> d AND sr7flag (ctx s) = sr7flag (ctx s) \<and>
     (\<exists>k. trace s' = trace s @ replicate (Suc k) (DataRead (BLKADDR_TO_ADDR s b)) \<and>
          length (resp s) = Suc k + length (resp s'))"
  by (rule poll_ready_Inr [OF assms]) (simp add: BLKADDR_TO_ADDR_def)

lemma intel_status_check_Inr:
  "intel_status_check b s = Inr (st, s') \<Longrightarrow>
     ctx s' = ctx s \<and> resp s = hd (resp s) # resp s' \<and>
     length (resp s) = Suc (length (resp s')) \<and>
     st = status_decode (ctx s) (hd (resp s)) \<and>
     trace s' = trace s @ [CmdWrite b INTEL_READ_STATUS, DataRead (BLKADDR_TO_ADDR s b)]"
  by (auto simp: intel_status_check_def intel_read_status_def Let_def fl_read_def
      BLKADDR_TO_ADDR_def split: list.splits)

lemma intel_status_check_tape:
  "resp s = r # rest \<Longrightarrow>
   intel_status_check b s =
     Inr (status_decode (ctx s) r,
          s\<lparr>trace := trace s @ [CmdWrite b INTEL_READ_STATUS, DataRead (BLKADDR_TO_ADDR s b)],
            resp := rest\<rparr>)"
  by (simp add: intel_status_check_def intel_read_status_def Let_def fl_read_def
      BLKADDR_TO_ADDR_def fl_cmdwrite_def)

text \<open>
  The lock change as the specification words it: the change-lock command, the confirm
  byte, the settle delay, the busy-wait for the ready mask, a second settle delay, the
  status decode, the reset of the block, and the decoded result.
\<close>

definition change_lock_block ::
  "u8 \<Rightarrow> u32 \<Rightarrow> flash_state \<Rightarrow> fault + (status_t \<times> flash_state)" where
  "change_lock_block confirm blkaddr s =
     (case poll_ready (\<lambda>t. BLKADDR_TO_ADDR t blkaddr)
             (intel_status_delay
               (fl_cmdwrite blkaddr confirm (fl_cmdwrite blkaddr INTEL_CHANGE_LOCK s))) of
        Inl e \<Rightarrow> Inl e
      | Inr (data, s1) \<Rightarrow>
          (case intel_status_check blkaddr (intel_status_delay s1) of
             Inl e \<Rightarrow> Inl e
           | Inr (status, s2) \<Rightarrow> Inr (status, intel_rst_blk blkaddr s2)))"

lemma intel_lock_block_change_lock:
  "intel_lock_block b s = change_lock_block INTEL_SET_LOCK_BIT b s"
  by (simp add: intel_lock_block_def change_lock_block_def Let_def)

lemma intel_unlock_block_change_lock:
  "intel_unlock_block b s = change_lock_block INTEL_CLEAR_LOCK_BITS b s"
  by (simp add: intel_unlock_block_def change_lock_block_def Let_def)

lemma change_lock_block_Inr:
  assumes "change_lock_block c b s = Inr (st, s')"
  shows "ctx s' = ctx s \<and> ends_with_reset b s' \<and> length (resp s') < length (resp s)"
proof -
  let ?s0 = "intel_status_delay (fl_cmdwrite b c (fl_cmdwrite b INTEL_CHANGE_LOCK s))"
  from assms obtain d s1 where p: "poll_ready (\<lambda>t. BLKADDR_TO_ADDR t b) ?s0 = Inr (d, s1)"
    by (auto simp: change_lock_block_def split: sum.splits)
  with assms obtain s2 where
    c: "intel_status_check b (intel_status_delay s1) = Inr (st, s2)" and
    s': "s' = intel_rst_blk b s2"
    by (auto simp: change_lock_block_def split: sum.splits)
  have "ctx s1 = ctx ?s0 \<and> length (resp s1) < length (resp ?s0)"
    using poll_ready_blk_Inr [OF p] by auto
  moreover have "ctx s2 = ctx s1 \<and> length (resp s2) < length (resp s1)"
    using intel_status_check_Inr [OF c] by simp
  ultimately show ?thesis
    using s' by (simp add: ends_with_reset_rst_blk)
qed

lemma blk_erase_cmds_Inr:
  assumes "blk_erase_cmds b s = Inr (st, s')"
  shows "ctx s' = ctx s \<and> ends_with_reset b s' \<and> length (resp s') < length (resp s)"
proof -
  let ?s0 = "intel_status_delay
    (fl_cmdwrite b INTEL_CONFIRM (fl_cmdwrite b INTEL_BLOCK_ERASE s))"
  from assms obtain d s1 where p: "poll_ready (\<lambda>t. BLKADDR_TO_ADDR t b) ?s0 = Inr (d, s1)"
    by (auto simp: blk_erase_cmds_def Let_def split: sum.splits)
  with assms obtain s2 where
    c: "intel_status_check b s1 = Inr (st, s2)" and s': "s' = intel_rst_blk b s2"
    by (auto simp: blk_erase_cmds_def Let_def split: sum.splits)
  have "ctx s1 = ctx ?s0 \<and> length (resp s1) < length (resp ?s0)"
    using poll_ready_blk_Inr [OF p] by auto
  moreover have "ctx s2 = ctx s1 \<and> length (resp s2) < length (resp s1)"
    using intel_status_check_Inr [OF c] by simp
  ultimately show ?thesis
    using s' by (simp add: ends_with_reset_rst_blk)
qed

lemma intel_blk_erase_dev_Inr:
  assumes "intel_blk_erase_dev nu b s = Inr (st, s')"
  shows "ctx s' = ctx s \<and> ends_with_reset b s' \<and> length (resp s') < length (resp s)"
proof (cases nu)
  case True
  with assms show ?thesis
    by (simp add: intel_blk_erase_dev_def blk_erase_cmds_Inr)
next
  case False
  with assms obtain ust s1 where
    u: "change_lock_block INTEL_CLEAR_LOCK_BITS b s = Inr (ust, s1)"
    by (auto simp: intel_blk_erase_dev_def intel_unlock_block_change_lock split: sum.splits)
  note u1 = change_lock_block_Inr [OF u]
  show ?thesis
  proof (cases "ust = INTEL_STATUS_READY")
    case True
    with assms False u have "blk_erase_cmds b s1 = Inr (st, s')"
      by (simp add: intel_blk_erase_dev_def intel_unlock_block_change_lock)
    from blk_erase_cmds_Inr [OF this] u1 show ?thesis by simp
  next
    case ne: False
    with assms False u have "s' = s1"
      by (simp add: intel_blk_erase_dev_def intel_unlock_block_change_lock)
    with u1 show ?thesis by simp
  qed
qed

subsection \<open>Reset and erase of the whole device\<close>

text \<open>
  The inner loop of \<^verbatim>\<open>intel_rst_dev\<close> (lines 142 to 146), entered at counter \<open>j\<close> with the
  running \<open>offset\<close>, in region \<open>i\<close>. \<^verbatim>\<open>BYTE_OFFSET_FACTOR\<close> is a macro of \<^verbatim>\<open>flash.h\<close>
  (absent): it is a parameter here, from the part mode to a shift count.
\<close>

function rst_dev_blocks ::
  "(u8 \<Rightarrow> nat) \<Rightarrow> nat \<Rightarrow> nat \<Rightarrow> u32 \<Rightarrow> flash_state \<Rightarrow> flash_state" where
  "rst_dev_blocks BYTE_OFFSET_FACTOR i j offset s =
     (if j < unat (region_nblks (di_flgeo (devinf (ctx s)) ! i)) then
        (let blkaddr = drop_bit (BYTE_OFFSET_FACTOR (di_part_mode (devinf (ctx s)))) offset;
             s1 = intel_rst_blk blkaddr s
         in rst_dev_blocks BYTE_OFFSET_FACTOR i (Suc j)
              (offset + region_blksiz (di_flgeo (devinf (ctx s1)) ! i)) s1)
      else s)"
  by pat_completeness auto

termination rst_dev_blocks
  by (relation "measure (\<lambda>(f, i, j, offset, s).
        unat (region_nblks (di_flgeo (devinf (ctx s)) ! i)) - j)") auto

declare rst_dev_blocks.simps [simp del]

lemma rst_dev_blocks_ctx: "ctx (rst_dev_blocks f i j offset s) = ctx s"
  by (induction f i j offset s rule: rst_dev_blocks.induct)
    (subst rst_dev_blocks.simps, simp add: Let_def)

text \<open>The outer loop of \<^verbatim>\<open>intel_rst_dev\<close> (line 140), entered at region \<open>i\<close>.\<close>

function rst_dev_regions :: "(u8 \<Rightarrow> nat) \<Rightarrow> nat \<Rightarrow> flash_state \<Rightarrow> flash_state" where
  "rst_dev_regions BYTE_OFFSET_FACTOR i s =
     (if i < length (di_flgeo (devinf (ctx s))) then
        rst_dev_regions BYTE_OFFSET_FACTOR (Suc i)
          (rst_dev_blocks BYTE_OFFSET_FACTOR i 0
             (region_offset (di_flgeo (devinf (ctx s)) ! i)) s)
      else s)"
  by pat_completeness auto

termination rst_dev_regions
  by (relation "measure (\<lambda>(f, i, s). length (di_flgeo (devinf (ctx s))) - i)")
    (auto simp: rst_dev_blocks_ctx)

declare rst_dev_regions.simps [simp del]

definition intel_rst_dev :: "(u8 \<Rightarrow> nat) \<Rightarrow> flash_state \<Rightarrow> flash_state" where
  "intel_rst_dev BYTE_OFFSET_FACTOR s = rst_dev_regions BYTE_OFFSET_FACTOR 0 s"

text \<open>
  The inner loop of \<^verbatim>\<open>intel_erase_dev\<close> (lines 169 to 174). A status other than
  \<open>INTEL_STATUS_READY\<close> in the result is the early \<^verbatim>\<open>return status\<close>; the loop running out
  gives \<open>INTEL_STATUS_READY\<close>, with which the outer loop goes on.
\<close>

function erase_dev_blocks ::
  "bool \<Rightarrow> (u8 \<Rightarrow> nat) \<Rightarrow> nat \<Rightarrow> nat \<Rightarrow> u32 \<Rightarrow> flash_state \<Rightarrow>
     fault + (status_t \<times> flash_state)" where
  "erase_dev_blocks no_unlock BYTE_OFFSET_FACTOR i j offset s =
     (if j < unat (region_nblks (di_flgeo (devinf (ctx s)) ! i)) then
        (let blkaddr = drop_bit (BYTE_OFFSET_FACTOR (di_part_mode (devinf (ctx s)))) offset
         in case intel_blk_erase_dev no_unlock blkaddr s of
              Inl e \<Rightarrow> Inl e
            | Inr (status, s1) \<Rightarrow>
                (if status \<noteq> INTEL_STATUS_READY then Inr (status, s1)
                 else erase_dev_blocks no_unlock BYTE_OFFSET_FACTOR i (Suc j)
                        (offset + region_blksiz (di_flgeo (devinf (ctx s1)) ! i)) s1))
      else Inr (INTEL_STATUS_READY, s))"
  by pat_completeness auto

termination erase_dev_blocks
  by (relation "measure (\<lambda>(nu, f, i, j, offset, s).
        unat (region_nblks (di_flgeo (devinf (ctx s)) ! i)) - j)")
    (auto dest!: intel_blk_erase_dev_Inr)

declare erase_dev_blocks.simps [simp del]

lemma erase_dev_blocks_ctx:
  "erase_dev_blocks nu f i j offset s = Inr (st, s') \<Longrightarrow> ctx s' = ctx s"
proof (induction nu f i j offset s rule: erase_dev_blocks.induct)
  case (1 nu f i j offset s)
  show ?case
  proof (cases "j < unat (region_nblks (di_flgeo (devinf (ctx s)) ! i))")
    case False
    with "1.prems" show ?thesis
      by (subst (asm) erase_dev_blocks.simps) simp
  next
    case True
    let ?b = "drop_bit (f (di_part_mode (devinf (ctx s)))) offset"
    from True "1.prems" obtain st1 s1 where
      e: "intel_blk_erase_dev nu ?b s = Inr (st1, s1)"
      by (subst (asm) erase_dev_blocks.simps) (auto simp: Let_def split: sum.splits)
    note c1 = intel_blk_erase_dev_Inr [OF e]
    show ?thesis
    proof (cases "st1 = INTEL_STATUS_READY")
      case False
      with True e "1.prems" have "s' = s1"
        by (subst (asm) erase_dev_blocks.simps) (simp add: Let_def)
      with c1 show ?thesis by simp
    next
      case ready: True
      with True e "1.prems" have
        "erase_dev_blocks nu f i (Suc j)
           (offset + region_blksiz (di_flgeo (devinf (ctx s1)) ! i)) s1 = Inr (st, s')"
        by (subst (asm) erase_dev_blocks.simps) (simp add: Let_def)
      moreover from ready have "\<not> st1 \<noteq> INTEL_STATUS_READY" by simp
      ultimately have "ctx s' = ctx s1"
        by (rule "1.IH" [OF True refl e refl, rotated])
      with c1 show ?thesis by simp
    qed
  qed
qed

text \<open>The outer loop of \<^verbatim>\<open>intel_erase_dev\<close> (line 167), entered at region \<open>i\<close>.\<close>

function erase_dev_regions ::
  "bool \<Rightarrow> (u8 \<Rightarrow> nat) \<Rightarrow> nat \<Rightarrow> flash_state \<Rightarrow> fault + (status_t \<times> flash_state)" where
  "erase_dev_regions no_unlock BYTE_OFFSET_FACTOR i s =
     (if i < length (di_flgeo (devinf (ctx s))) then
        (case erase_dev_blocks no_unlock BYTE_OFFSET_FACTOR i 0
                (region_offset (di_flgeo (devinf (ctx s)) ! i)) s of
           Inl e \<Rightarrow> Inl e
         | Inr (status, s1) \<Rightarrow>
             (if status \<noteq> INTEL_STATUS_READY then Inr (status, s1)
              else erase_dev_regions no_unlock BYTE_OFFSET_FACTOR (Suc i) s1))
      else Inr (INTEL_STATUS_READY, s))"
  by pat_completeness auto

termination erase_dev_regions
  by (relation "measure (\<lambda>(nu, f, i, s). length (di_flgeo (devinf (ctx s))) - i)")
    (auto dest!: erase_dev_blocks_ctx)

declare erase_dev_regions.simps [simp del]

definition intel_erase_dev ::
  "bool \<Rightarrow> (u8 \<Rightarrow> nat) \<Rightarrow> flash_state \<Rightarrow> fault + (status_t \<times> flash_state)" where
  "intel_erase_dev no_unlock BYTE_OFFSET_FACTOR s =
     erase_dev_regions no_unlock BYTE_OFFSET_FACTOR 0 s"

subsection \<open>Programming\<close>

text \<open>
  The alignment of lines 219 and 220, for a non-zero \<^verbatim>\<open>addr_step\<close>. The operands are
  converted to \<^verbatim>\<open>uint32_t\<close>, so the sum wraps around at \<open>2 ^ 32\<close>.
\<close>

definition align_nbytes :: "u8 \<Rightarrow> u32 \<Rightarrow> u32" where
  "align_nbytes step nbytes =
     (if nbytes mod ucast step \<noteq> 0 then nbytes + (ucast step - nbytes mod ucast step)
      else nbytes)"

text \<open>
  The loop of \<^verbatim>\<open>intel_prog_dev\<close> (lines 222 to 240). \<^verbatim>\<open>mem_read\<close> is a macro that is not
  part of the sources: it is a parameter here, from the source address to the data word
  read there.
\<close>

function prog_loop ::
  "(u32 \<Rightarrow> u32) \<Rightarrow> u32 \<Rightarrow> u32 \<Rightarrow> u32 \<Rightarrow> flash_state \<Rightarrow>
     fault + (status_t \<times> flash_state)" where
  "prog_loop mem_read offset srcaddr nbytes s =
     (if nbytes \<noteq> 0 then
        (let data = mem_read srcaddr;
             s1 = fl_cmdwrite (drop_bit (unat (addr_shift (ctx s))) offset)
                    INTEL_PROGRAM_WORD s;
             s2 = fl_write offset data s1;
             s3 = intel_status_delay s2
         in case poll_ready (\<lambda>t. offset) s3 of
              Inl e \<Rightarrow> Inl e
            | Inr (data, s4) \<Rightarrow>
                (case intel_status_check (ADDR_TO_BLKADDR s4 offset) s4 of
                   Inl e \<Rightarrow> Inl e
                 | Inr (status, s5) \<Rightarrow>
                     (if status \<noteq> INTEL_STATUS_READY
                      then Inr (status, intel_rst_blk (ADDR_TO_BLKADDR s5 offset) s5)
                      else prog_loop mem_read
                             (offset + ucast (addr_step (ctx s5)))
                             (srcaddr + ucast (addr_step (ctx s5)))
                             (nbytes - ucast (addr_step (ctx s5))) s5)))
      else Inr (INTEL_STATUS_READY, s))"
  by pat_completeness auto

lemma poll_ready_const_Inr:
  assumes "poll_ready (\<lambda>t. a) s = Inr (d, s')"
  shows "ctx s' = ctx s \<and> d AND sr7flag (ctx s) = sr7flag (ctx s) \<and>
     (\<exists>k. trace s' = trace s @ replicate (Suc k) (DataRead a) \<and>
          length (resp s) = Suc k + length (resp s'))"
  by (rule poll_ready_Inr [OF assms]) simp

termination prog_loop
proof (relation "measure (\<lambda>(m, offset, srcaddr, nbytes, s). length (resp s))", goal_cases)
  case 1
  show ?case by simp
next
  case (2 mem_read offset srcaddr nbytes s data s1 s2 s3 x2 d s4 x2a status s5)
  from 2(5,6,7) have p: "poll_ready (\<lambda>t. offset) s3 = Inr (d, s4)" by simp
  from 2(8,9) have c: "intel_status_check (ADDR_TO_BLKADDR s4 offset) s4 = Inr (status, s5)"
    by simp
  have "length (resp s5) < length (resp s4)"
    using intel_status_check_Inr [OF c] by simp
  moreover have "length (resp s4) < length (resp s3)"
    using poll_ready_const_Inr [OF p] by auto
  moreover have "resp s3 = resp s"
    using 2(3,4,5) by simp
  ultimately show ?case by simp
qed

declare prog_loop.simps [simp del]

text \<open>
  \<^verbatim>\<open>intel_prog_dev\<close>. After the reset of the block, \<^verbatim>\<open>nbytes % addr_step\<close> is evaluated:
  with \<^verbatim>\<open>addr_step\<close> 0 that is undefined, and the model stops with \<open>DivByZero\<close>.
\<close>

definition intel_prog_dev ::
  "(u32 \<Rightarrow> u32) \<Rightarrow> u32 \<Rightarrow> u32 \<Rightarrow> u32 \<Rightarrow> flash_state \<Rightarrow>
     fault + (status_t \<times> flash_state)" where
  "intel_prog_dev mem_read offset srcaddr nbytes s =
     (let s1 = intel_rst_blk (ADDR_TO_BLKADDR s offset) s
      in if addr_step (ctx s1) = 0 then Inl DivByZero
         else prog_loop mem_read offset srcaddr (align_nbytes (addr_step (ctx s1)) nbytes) s1)"

subsection \<open>The Block Iterator and the device erase, as the specification words them\<close>

text \<open>
  The blocks of one region: \<open>n\<close> addresses, each the running offset shifted right, the
  offset then advanced by the block size.
\<close>

fun region_blocks :: "nat \<Rightarrow> u32 \<Rightarrow> nat \<Rightarrow> u32 \<Rightarrow> u32 list" where
  "region_blocks shift blksiz 0 offset = []"
| "region_blocks shift blksiz (Suc n) offset =
     drop_bit shift offset # region_blocks shift blksiz n (offset + blksiz)"

text \<open>For each region in geometry order, its blocks.\<close>

definition block_iterator :: "(u8 \<Rightarrow> nat) \<Rightarrow> dev_info \<Rightarrow> u32 list" where
  "block_iterator BYTE_OFFSET_FACTOR di =
     concat (map (\<lambda>r. region_blocks (BYTE_OFFSET_FACTOR (di_part_mode di))
                        (region_blksiz r) (unat (region_nblks r)) (region_offset r))
                 (di_flgeo di))"

text \<open>
  Erase the blocks of a list in order; stop at the first result that is not ready and
  return it; ready when every block succeeded.
\<close>

fun erase_each :: "bool \<Rightarrow> u32 list \<Rightarrow> flash_state \<Rightarrow> fault + (status_t \<times> flash_state)" where
  "erase_each no_unlock [] s = Inr (INTEL_STATUS_READY, s)"
| "erase_each no_unlock (b # bs) s =
     (case intel_blk_erase_dev no_unlock b s of
        Inl e \<Rightarrow> Inl e
      | Inr (status, s1) \<Rightarrow>
          (if status \<noteq> INTEL_STATUS_READY then Inr (status, s1)
           else erase_each no_unlock bs s1))"

definition erase_device_spec ::
  "bool \<Rightarrow> (u8 \<Rightarrow> nat) \<Rightarrow> flash_state \<Rightarrow> fault + (status_t \<times> flash_state)" where
  "erase_device_spec no_unlock BYTE_OFFSET_FACTOR s =
     erase_each no_unlock (block_iterator BYTE_OFFSET_FACTOR (devinf (ctx s))) s"

subsection \<open>Events, units and counts for the statements\<close>

text \<open>The events of a lock change that waits through \<open>k\<close> busy reads.\<close>

definition change_lock_events :: "flash_state \<Rightarrow> u8 \<Rightarrow> u32 \<Rightarrow> nat \<Rightarrow> event list" where
  "change_lock_events s confirm blkaddr k =
     [CmdWrite blkaddr INTEL_CHANGE_LOCK, CmdWrite blkaddr confirm, StatusDelay] @
     replicate (Suc k) (DataRead (BLKADDR_TO_ADDR s blkaddr)) @
     [StatusDelay, CmdWrite blkaddr INTEL_READ_STATUS, DataRead (BLKADDR_TO_ADDR s blkaddr)] @
     reset_events blkaddr"

text \<open>The events of \<open>blk_erase_cmds\<close> when the busy-wait sees \<open>k\<close> busy reads.\<close>

definition blk_erase_events :: "flash_state \<Rightarrow> u32 \<Rightarrow> nat \<Rightarrow> event list" where
  "blk_erase_events s blkaddr k =
     [CmdWrite blkaddr INTEL_BLOCK_ERASE, CmdWrite blkaddr INTEL_CONFIRM, StatusDelay] @
     replicate (Suc k) (DataRead (BLKADDR_TO_ADDR s blkaddr)) @
     [CmdWrite blkaddr INTEL_READ_STATUS, DataRead (BLKADDR_TO_ADDR s blkaddr)] @
     reset_events blkaddr"

text \<open>The events of one pass of the programming loop.\<close>

definition prog_unit_events :: "flash_state \<Rightarrow> (u32 \<Rightarrow> u32) \<Rightarrow> u32 \<Rightarrow> u32 \<Rightarrow> nat \<Rightarrow> event list" where
  "prog_unit_events s mem_read offset srcaddr k =
     [CmdWrite (drop_bit (unat (addr_shift (ctx s))) offset) INTEL_PROGRAM_WORD,
      DataWrite offset (mem_read srcaddr), StatusDelay] @
     replicate (Suc k) (DataRead offset) @
     [CmdWrite (ADDR_TO_BLKADDR s offset) INTEL_READ_STATUS,
      DataRead (BLKADDR_TO_ADDR s (ADDR_TO_BLKADDR s offset))]"

text \<open>The data writes of a trace, oldest first: one per programmed unit.\<close>

fun data_writes :: "event list \<Rightarrow> (u32 \<times> u32) list" where
  "data_writes [] = []"
| "data_writes (DataWrite a d # es) = (a, d) # data_writes es"
| "data_writes (e # es) = data_writes es"

text \<open>
  What the device answers while one unit is programmed: words without the ready flag
  while it is busy, the word with the ready flag that ends the busy-wait, and the status
  word that \<^verbatim>\<open>intel_status_check\<close> reads. The unit went well when that status word decodes
  to ready.
\<close>

definition unit_words :: "u32 list \<times> u32 \<times> u32 \<Rightarrow> u32 list" where
  "unit_words u = (case u of (busy, r, st) \<Rightarrow> busy @ [r, st])"

definition unit_ok :: "context_t \<Rightarrow> u32 list \<times> u32 \<times> u32 \<Rightarrow> bool" where
  "unit_ok c u =
     (case u of (busy, r, st) \<Rightarrow>
        list_all (\<lambda>w. w AND sr7flag c \<noteq> sr7flag c) busy \<and>
        r AND sr7flag c = sr7flag c \<and>
        status_decode c st = INTEL_STATUS_READY)"

text \<open>\<open>ceil (nbytes / addr_step)\<close>, for a non-zero step.\<close>

definition ceil_units :: "u8 \<Rightarrow> u32 \<Rightarrow> nat" where
  "ceil_units step nbytes = (unat nbytes + unat step - 1) div unat step"

text \<open>
  The result kind \<open>st\<close> is ready, or it is what the decoder gives on one of the words that
  the device answers from state \<open>s\<close> on.
\<close>

definition decoded_on_tape :: "flash_state \<Rightarrow> status_t \<Rightarrow> bool" where
  "decoded_on_tape s st =
     (st = INTEL_STATUS_READY \<or> list_ex (\<lambda>w. status_decode (ctx s) w = st) (resp s))"

subsection \<open>A concrete device\<close>

text \<open>
  One 16-bit part on a 16-bit bus: one region at offset 0 with 4 blocks of 0x10000
  bytes, \<^verbatim>\<open>addr_step\<close> 2 and \<^verbatim>\<open>addr_shift\<close> 1. With a single part a status bit is not
  replicated, so \<^verbatim>\<open>fl_form_cmd\<close> only widens the byte.
\<close>

definition devinfo_x16 :: dev_info where
  "devinfo_x16 =
     \<lparr>di_addr_step = 2, di_addr_shift = 1, di_part_mode = 2,
      di_flgeo = [\<lparr>region_offset = 0, region_nblks = 4, region_blksiz = 0x10000\<rparr>]\<rparr>"

definition form_cmd_x1 :: "u8 \<Rightarrow> u32" where
  "form_cmd_x1 c = ucast c"

text \<open>The static variables as the C start-up code leaves them: all zero.\<close>

definition boot_state :: "u32 list \<Rightarrow> flash_state" where
  "boot_state tape =
     \<lparr>ctx = \<lparr>sr7flag = 0, sr6flag = 0, sr5flag = 0, sr4flag = 0, sr3flag = 0, sr2flag = 0,
             sr1flag = 0,
             devinf = \<lparr>di_addr_step = 0, di_addr_shift = 0, di_part_mode = 0, di_flgeo = []\<rparr>,
             addr_step = 0, addr_shift = 0\<rparr>,
      trace = [], resp = tape\<rparr>"

definition x16_state :: "u32 list \<Rightarrow> flash_state" where
  "x16_state tape = intel_init_dev_params form_cmd_x1 devinfo_x16 (boot_state tape)"

text \<open>
  A second concrete device: one 32-bit part on a 32-bit bus, \<^verbatim>\<open>addr_step\<close> 4 and
  \<^verbatim>\<open>addr_shift\<close> 2, with the same region.
\<close>

definition devinfo_x32 :: dev_info where
  "devinfo_x32 =
     \<lparr>di_addr_step = 4, di_addr_shift = 2, di_part_mode = 4,
      di_flgeo = [\<lparr>region_offset = 0, region_nblks = 4, region_blksiz = 0x10000\<rparr>]\<rparr>"

definition x32_state :: "u32 list \<Rightarrow> flash_state" where
  "x32_state tape = intel_init_dev_params form_cmd_x1 devinfo_x32 (boot_state tape)"

lemmas intel_cmds =
  INTEL_BLOCK_ERASE_def INTEL_PROGRAM_WORD_def INTEL_CLEAR_STATUS_def
  INTEL_CHANGE_LOCK_def INTEL_READ_STATUS_def INTEL_READ_ARRAY_def
  INTEL_SET_LOCK_BIT_def INTEL_CLEAR_LOCK_BITS_def INTEL_CONFIRM_def

lemmas intel_bits =
  INTEL_READY_def INTEL_ERASE_SUSPEND_def INTEL_ERASE_ERRORS_def
  INTEL_PROGRAM_ERRORS_def INTEL_VOLTAGE_ERRORS_def INTEL_PROGRAM_SUSPEND_def
  INTEL_LOCKBIT_ERRORS_def

lemma x16_state_fields [simp]:
  "sr7flag (ctx (x16_state tape)) = 0x80"
  "sr6flag (ctx (x16_state tape)) = 0x40"
  "sr5flag (ctx (x16_state tape)) = 0x20"
  "sr4flag (ctx (x16_state tape)) = 0x10"
  "sr3flag (ctx (x16_state tape)) = 0x08"
  "sr2flag (ctx (x16_state tape)) = 0x04"
  "sr1flag (ctx (x16_state tape)) = 0x02"
  "devinf (ctx (x16_state tape)) = devinfo_x16"
  "addr_step (ctx (x16_state tape)) = 2"
  "addr_shift (ctx (x16_state tape)) = 1"
  "trace (x16_state tape) = []"
  "resp (x16_state tape) = tape"
  by (simp_all add: x16_state_def intel_init_dev_params_def boot_state_def form_cmd_x1_def
      devinfo_x16_def intel_bits)

section \<open>The status decoder\<close>

text \<open>
  C1. The status decoder is a total function of the status word and the seven masks
  alone: it gives exactly one result kind for every status word, the same one in any two
  contexts that agree on the masks; and the result is the sequence error if and only if
  both the erase-error mask and the program-error mask are set in the status word. So the
  pair is tested before either bit alone: with both set the result is neither the erase
  error nor the program error.
\<close>

theorem status_decode_sequence_error:
  "(\<exists>!k. status_decode c status = k) \<and>
   (sr7flag c' = sr7flag c \<and> sr6flag c' = sr6flag c \<and> sr5flag c' = sr5flag c \<and>
    sr4flag c' = sr4flag c \<and> sr3flag c' = sr3flag c \<and> sr2flag c' = sr2flag c \<and>
    sr1flag c' = sr1flag c \<longrightarrow> status_decode c' status = status_decode c status) \<and>
   (status_decode c status = INTEL_STATUS_CMDSEQ_ERR \<longleftrightarrow>
      status AND sr5flag c = sr5flag c \<and> status AND sr4flag c = sr4flag c)"
proof (intro conjI)
  show "\<exists>!k. status_decode c status = k" by simp
  show "sr7flag c' = sr7flag c \<and> sr6flag c' = sr6flag c \<and> sr5flag c' = sr5flag c \<and>
    sr4flag c' = sr4flag c \<and> sr3flag c' = sr3flag c \<and> sr2flag c' = sr2flag c \<and>
    sr1flag c' = sr1flag c \<longrightarrow> status_decode c' status = status_decode c status"
    by (simp add: status_decode_def)
  show "status_decode c status = INTEL_STATUS_CMDSEQ_ERR \<longleftrightarrow>
      status AND sr5flag c = sr5flag c \<and> status AND sr4flag c = sr4flag c"
    by (simp add: status_decode_def)
qed

theorem status_decode_sequence_error_witness:
  "status_decode (ctx (x16_state [])) 0xb0 = INTEL_STATUS_CMDSEQ_ERR \<and>
   status_decode ((ctx (x16_state []))\<lparr>addr_step := 4\<rparr>) 0xb0 =
     status_decode (ctx (x16_state [])) 0xb0 \<and>
   status_decode (ctx (x16_state [])) 0xa0 = INTEL_STATUS_ERASE_ERR \<and>
   status_decode (ctx (x16_state [])) 0x90 = INTEL_STATUS_PROG_ERR"
proof (intro conjI)
  note t = status_decode_sequence_error
    [of "ctx (x16_state [])" "0xb0" "(ctx (x16_state []))\<lparr>addr_step := 4\<rparr>"]
  have both: "(0xb0 :: u32) AND sr5flag (ctx (x16_state [])) = sr5flag (ctx (x16_state [])) \<and>
      (0xb0 :: u32) AND sr4flag (ctx (x16_state [])) = sr4flag (ctx (x16_state []))"
    by simp
  from t both show "status_decode (ctx (x16_state [])) 0xb0 = INTEL_STATUS_CMDSEQ_ERR"
    by blast
  from t show "status_decode ((ctx (x16_state []))\<lparr>addr_step := 4\<rparr>) 0xb0 =
     status_decode (ctx (x16_state [])) 0xb0"
    by simp
  show "status_decode (ctx (x16_state [])) 0xa0 = INTEL_STATUS_ERASE_ERR"
    by (simp add: status_decode_def)
  show "status_decode (ctx (x16_state [])) 0x90 = INTEL_STATUS_PROG_ERR"
    by (simp add: status_decode_def)
qed

section \<open>What the operations do on a given tape\<close>

lemma change_lock_block_tape:
  assumes "resp s = busy @ r # st # rest"
    and "list_all (\<lambda>w. w AND sr7flag (ctx s) \<noteq> sr7flag (ctx s)) busy"
    and "r AND sr7flag (ctx s) = sr7flag (ctx s)"
  shows "change_lock_block c b s =
     Inr (status_decode (ctx s) st,
          s\<lparr>trace := trace s @
                 [CmdWrite b INTEL_CHANGE_LOCK, CmdWrite b c, StatusDelay] @
                 replicate (Suc (length busy)) (DataRead (BLKADDR_TO_ADDR s b)) @
                 [StatusDelay, CmdWrite b INTEL_READ_STATUS, DataRead (BLKADDR_TO_ADDR s b)] @
                 reset_events b,
            resp := rest\<rparr>)"
proof -
  let ?s0 = "intel_status_delay (fl_cmdwrite b c (fl_cmdwrite b INTEL_CHANGE_LOCK s))"
  let ?a = "BLKADDR_TO_ADDR s b"
  have "poll_ready (\<lambda>t. BLKADDR_TO_ADDR t b) ?s0 =
      Inr (r, ?s0\<lparr>trace := trace ?s0 @ replicate (Suc (length busy)) (DataRead ?a),
                   resp := st # rest\<rparr>)"
    using assms by (intro poll_ready_tape) (simp_all add: BLKADDR_TO_ADDR_def)
  then show ?thesis
    by (simp add: change_lock_block_def intel_status_check_tape reset_events_def
        BLKADDR_TO_ADDR_def intel_rst_blk_def intel_clear_status_def fl_cmdwrite_def
        intel_status_delay_def)
qed

lemma blk_erase_cmds_tape:
  assumes "resp s = busy @ r # st # rest"
    and "list_all (\<lambda>w. w AND sr7flag (ctx s) \<noteq> sr7flag (ctx s)) busy"
    and "r AND sr7flag (ctx s) = sr7flag (ctx s)"
  shows "blk_erase_cmds b s =
     Inr (status_decode (ctx s) st,
          s\<lparr>trace := trace s @
                 [CmdWrite b INTEL_BLOCK_ERASE, CmdWrite b INTEL_CONFIRM, StatusDelay] @
                 replicate (Suc (length busy)) (DataRead (BLKADDR_TO_ADDR s b)) @
                 [CmdWrite b INTEL_READ_STATUS, DataRead (BLKADDR_TO_ADDR s b)] @
                 reset_events b,
            resp := rest\<rparr>)"
proof -
  let ?s0 = "intel_status_delay
    (fl_cmdwrite b INTEL_CONFIRM (fl_cmdwrite b INTEL_BLOCK_ERASE s))"
  let ?a = "BLKADDR_TO_ADDR s b"
  have "poll_ready (\<lambda>t. BLKADDR_TO_ADDR t b) ?s0 =
      Inr (r, ?s0\<lparr>trace := trace ?s0 @ replicate (Suc (length busy)) (DataRead ?a),
                   resp := st # rest\<rparr>)"
    using assms by (intro poll_ready_tape) (simp_all add: BLKADDR_TO_ADDR_def)
  then show ?thesis
    by (simp add: blk_erase_cmds_def intel_status_check_tape reset_events_def
        BLKADDR_TO_ADDR_def intel_rst_blk_def intel_clear_status_def fl_cmdwrite_def
        intel_status_delay_def)
qed

lemma unit_words_simp [simp]: "unit_words (busy, r, st) = busy @ [r, st]"
  by (simp add: unit_words_def)

lemma unit_ok_simp [simp]:
  "unit_ok c (busy, r, st) =
     (list_all (\<lambda>w. w AND sr7flag c \<noteq> sr7flag c) busy \<and>
      r AND sr7flag c = sr7flag c \<and> status_decode c st = INTEL_STATUS_READY)"
  by (simp add: unit_ok_def)

lemma data_writes_append: "data_writes (xs @ ys) = data_writes xs @ data_writes ys"
  by (induction xs rule: data_writes.induct) simp_all

lemma data_writes_reads [simp]: "data_writes (replicate k (DataRead a)) = []"
  by (induction k) simp_all

lemma unat_ucast_u8: "unat (ucast (x :: u8) :: u32) = unat x"
  by transfer simp

lemma data_writes_prog_unit_events [simp]:
  "data_writes (prog_unit_events s mr offset srcaddr k) = [(offset, mr srcaddr)]"
  by (simp add: prog_unit_events_def data_writes_append)

lemma prog_loop_unit:
  assumes "nbytes \<noteq> 0"
    and "resp s = busy @ r # st # rest"
    and "list_all (\<lambda>w. w AND sr7flag (ctx s) \<noteq> sr7flag (ctx s)) busy"
    and "r AND sr7flag (ctx s) = sr7flag (ctx s)"
  shows "prog_loop mr offset srcaddr nbytes s =
     (let s5 = s\<lparr>trace := trace s @ prog_unit_events s mr offset srcaddr (length busy),
                    resp := rest\<rparr>
      in if status_decode (ctx s) st \<noteq> INTEL_STATUS_READY
         then Inr (status_decode (ctx s) st, intel_rst_blk (ADDR_TO_BLKADDR s offset) s5)
         else prog_loop mr (offset + ucast (addr_step (ctx s)))
                (srcaddr + ucast (addr_step (ctx s)))
                (nbytes - ucast (addr_step (ctx s))) s5)"
proof -
  let ?s3 = "s\<lparr>trace := trace s @
      [CmdWrite (drop_bit (unat (addr_shift (ctx s))) offset) INTEL_PROGRAM_WORD,
       DataWrite offset (mr srcaddr), StatusDelay]\<rparr>"
  have s3: "intel_status_delay (fl_write offset (mr srcaddr)
      (fl_cmdwrite (drop_bit (unat (addr_shift (ctx s))) offset) INTEL_PROGRAM_WORD s)) = ?s3"
    by (simp add: fl_cmdwrite_def fl_write_def intel_status_delay_def)
  have p: "poll_ready (\<lambda>t. offset) ?s3 =
      Inr (r, ?s3\<lparr>trace := trace ?s3 @ replicate (Suc (length busy)) (DataRead offset),
                   resp := st # rest\<rparr>)"
    using assms by (intro poll_ready_tape) simp_all
  show ?thesis
    using assms(1)
    by (subst prog_loop.simps)
      (simp add: s3 p Let_def intel_status_check_tape prog_unit_events_def ADDR_TO_BLKADDR_def
        BLKADDR_TO_ADDR_def)
qed

lemma prog_loop_tape:
  assumes "addr_step (ctx s) \<noteq> 0"
    and "resp s = concat (map unit_words us) @ rest"
    and "list_all (unit_ok (ctx s)) us"
    and "unat nbytes = length us * unat (addr_step (ctx s))"
  shows "\<exists>s'. prog_loop mr offset srcaddr nbytes s = Inr (INTEL_STATUS_READY, s') \<and>
     ctx s' = ctx s \<and> resp s' = rest \<and>
     data_writes (trace s') = data_writes (trace s) @
       map (\<lambda>i. (offset + of_nat (i * unat (addr_step (ctx s))),
                  mr (srcaddr + of_nat (i * unat (addr_step (ctx s)))))) [0..<length us]"
  using assms
proof (induction us arbitrary: s offset srcaddr nbytes)
  case Nil
  then have "nbytes = 0" by (simp add: unat_eq_0)
  with Nil show ?case
    by (subst prog_loop.simps) simp
next
  case (Cons u us)
  obtain busy r st where u: "u = (busy, r, st)" by (cases u)
  let ?step = "addr_step (ctx s)"
  let ?s5 = "s\<lparr>trace := trace s @ prog_unit_events s mr offset srcaddr (length busy),
                 resp := concat (map unit_words us) @ rest\<rparr>"
  from Cons.prems(1) have step: "0 < unat ?step" by (simp add: unat_gt_0)
  with Cons.prems(4) have nz: "nbytes \<noteq> 0" by (auto simp: unat_eq_0)
  have ucast: "unat (ucast ?step :: u32) = unat ?step"
    by (rule unat_ucast_u8)
  from Cons.prems(4) have le: "(ucast ?step :: u32) \<le> nbytes"
    by (simp add: word_le_nat_alt ucast)
  have n': "unat (nbytes - ucast ?step) = length us * unat (addr_step (ctx ?s5))"
    using Cons.prems(4) le by (simp add: unat_sub ucast)
  have unit: "prog_loop mr offset srcaddr nbytes s =
      prog_loop mr (offset + ucast ?step) (srcaddr + ucast ?step) (nbytes - ucast ?step) ?s5"
    using Cons.prems(2,3) u
    by (subst prog_loop_unit [OF nz, where busy = busy and r = r and st = st
          and rest = "concat (map unit_words us) @ rest"])
      (simp_all add: Let_def)
  have "\<exists>s'. prog_loop mr (offset + ucast ?step) (srcaddr + ucast ?step)
        (nbytes - ucast ?step) ?s5 = Inr (INTEL_STATUS_READY, s') \<and>
     ctx s' = ctx ?s5 \<and> resp s' = rest \<and>
     data_writes (trace s') = data_writes (trace ?s5) @
       map (\<lambda>i. (offset + ucast ?step + of_nat (i * unat (addr_step (ctx ?s5))),
                  mr (srcaddr + ucast ?step + of_nat (i * unat (addr_step (ctx ?s5))))))
         [0..<length us]"
    using Cons.prems(1,3) n' by (intro Cons.IH) simp_all
  then obtain s' where s':
    "prog_loop mr (offset + ucast ?step) (srcaddr + ucast ?step)
        (nbytes - ucast ?step) ?s5 = Inr (INTEL_STATUS_READY, s')"
    "ctx s' = ctx s" "resp s' = rest"
    "data_writes (trace s') = data_writes (trace s) @ (offset, mr srcaddr) #
       map (\<lambda>i. (offset + ucast ?step + of_nat (i * unat ?step),
                  mr (srcaddr + ucast ?step + of_nat (i * unat ?step)))) [0..<length us]"
    by (auto simp: data_writes_append)
  have of_nat_step: "(of_nat (unat ?step) :: u32) = ucast ?step"
    by simp
  have "map (\<lambda>i. (offset + of_nat (i * unat ?step), mr (srcaddr + of_nat (i * unat ?step))))
          [0..<length (u # us)] =
        (offset, mr srcaddr) #
        map (\<lambda>i. (offset + ucast ?step + of_nat (i * unat ?step),
                   mr (srcaddr + ucast ?step + of_nat (i * unat ?step)))) [0..<length us]"
    by (simp add: map_upt_Suc of_nat_step distrib_right add.assoc del: upt_Suc)
  with s' unit show ?case by auto
qed

lemma ceil_mult:
  fixes n k :: nat
  assumes "0 < k"
  shows "(n + k - 1) div k * k = (if n mod k = 0 then n else n + k - n mod k)"
proof (cases "n mod k = 0")
  case True
  then obtain q where q: "n = k * q" by auto
  have "(k * q + k - 1) div k = q"
    using assms by (intro div_nat_eqI) auto
  with True q show ?thesis by simp
next
  case False
  define q r where "q = n div k" and "r = n mod k"
  have n: "n = k * q + r" and r: "0 < r" "r < k"
    using False assms by (simp_all add: q_def r_def)
  have "(n + k - 1) div k = Suc q"
    using r n by (intro div_nat_eqI) auto
  moreover have "n + k - n mod k = Suc q * k"
    using n r by (simp add: r_def [symmetric])
  ultimately show ?thesis using False by simp
qed

lemma align_nbytes_unat:
  assumes "step \<noteq> 0" and "ceil_units step nbytes * unat step < 2 ^ 32"
  shows "unat (align_nbytes step nbytes) = ceil_units step nbytes * unat step"
proof -
  let ?k = "unat step" and ?n = "unat nbytes"
  have k: "0 < ?k" using assms(1) by (simp add: unat_gt_0)
  have c: "ceil_units step nbytes * ?k = (if ?n mod ?k = 0 then ?n else ?n + ?k - ?n mod ?k)"
    unfolding ceil_units_def by (rule ceil_mult [OF k])
  have m: "unat (nbytes mod ucast step) = ?n mod ?k"
    by (simp add: unat_mod unat_ucast_u8)
  show ?thesis
  proof (cases "?n mod ?k = 0")
    case True
    then have "nbytes mod ucast step = 0"
      using m by (simp add: unat_eq_0)
    with True c show ?thesis by (simp add: align_nbytes_def)
  next
    case False
    have nz: "nbytes mod ucast step \<noteq> 0"
    proof
      assume "nbytes mod ucast step = 0"
      then have "unat (nbytes mod ucast step) = 0" by (simp only: unat_0)
      with m False show False by simp
    qed
    have lt: "?n mod ?k < ?k" using k by simp
    then have le: "nbytes mod ucast step \<le> (ucast step :: u32)"
      by (simp add: word_le_nat_alt m unat_ucast_u8)
    have d: "unat ((ucast step :: u32) - nbytes mod ucast step) = ?k - ?n mod ?k"
      using le by (simp add: unat_sub m unat_ucast_u8)
    have "?n + (?k - ?n mod ?k) < 2 ^ 32"
      using assms(2) c False lt by simp
    then have "unat (nbytes + (ucast step - nbytes mod ucast step)) = ?n + (?k - ?n mod ?k)"
      using d by (simp add: unat_add_lem [THEN iffD1])
    with nz c False lt show ?thesis by (simp add: align_nbytes_def)
  qed
qed

lemma intel_prog_dev_tape:
  assumes "addr_step (ctx s) \<noteq> 0"
    and "ceil_units (addr_step (ctx s)) nbytes * unat (addr_step (ctx s)) < 2 ^ 32"
    and "resp s = concat (map unit_words us) @ rest"
    and "list_all (unit_ok (ctx s)) us"
    and "length us = ceil_units (addr_step (ctx s)) nbytes"
  shows "\<exists>s'. intel_prog_dev mr offset srcaddr nbytes s = Inr (INTEL_STATUS_READY, s') \<and>
     ctx s' = ctx s \<and> resp s' = rest \<and>
     data_writes (trace s') = data_writes (trace s) @
       map (\<lambda>i. (offset + of_nat (i * unat (addr_step (ctx s))),
                  mr (srcaddr + of_nat (i * unat (addr_step (ctx s))))))
         [0..<ceil_units (addr_step (ctx s)) nbytes]"
proof -
  let ?s1 = "intel_rst_blk (ADDR_TO_BLKADDR s offset) s"
  have "\<exists>s'. prog_loop mr offset srcaddr (align_nbytes (addr_step (ctx ?s1)) nbytes) ?s1 =
        Inr (INTEL_STATUS_READY, s') \<and>
     ctx s' = ctx ?s1 \<and> resp s' = rest \<and>
     data_writes (trace s') = data_writes (trace ?s1) @
       map (\<lambda>i. (offset + of_nat (i * unat (addr_step (ctx ?s1))),
                  mr (srcaddr + of_nat (i * unat (addr_step (ctx ?s1)))))) [0..<length us]"
    using assms by (intro prog_loop_tape) (simp_all add: align_nbytes_unat)
  with assms(1,5) show ?thesis
    by (simp add: intel_prog_dev_def Let_def data_writes_append)
qed

lemma x32_state_fields [simp]:
  "sr7flag (ctx (x32_state tape)) = 0x80"
  "sr6flag (ctx (x32_state tape)) = 0x40"
  "sr5flag (ctx (x32_state tape)) = 0x20"
  "sr4flag (ctx (x32_state tape)) = 0x10"
  "sr3flag (ctx (x32_state tape)) = 0x08"
  "sr2flag (ctx (x32_state tape)) = 0x04"
  "sr1flag (ctx (x32_state tape)) = 0x02"
  "devinf (ctx (x32_state tape)) = devinfo_x32"
  "addr_step (ctx (x32_state tape)) = 4"
  "addr_shift (ctx (x32_state tape)) = 2"
  "trace (x32_state tape) = []"
  "resp (x32_state tape) = tape"
  by (simp_all add: x32_state_def intel_init_dev_params_def boot_state_def form_cmd_x1_def
      devinfo_x32_def intel_bits)

section \<open>Programming: the rounded byte count\<close>

text \<open>
  C5, as the code has it. Let \<^verbatim>\<open>addr_step\<close> be non-zero, \<open>nbytes\<close> not a multiple of it,
  and the rounded count \<open>ceil (nbytes / addr_step) * addr_step\<close> below \<open>2 ^ 32\<close>. Then the
  alignment rounds \<open>nbytes\<close> up to that count, which is larger than \<open>nbytes\<close>; and when the
  device answers each unit with a ready word and a status that decodes to ready,
  \<^verbatim>\<open>intel_prog_dev\<close> returns ready after writing exactly \<open>ceil (nbytes / addr_step)\<close>
  units, unit \<open>i\<close> at \<open>offset + i * addr_step\<close> from \<open>srcaddr + i * addr_step\<close>.
\<close>

theorem prog_dev_rounds_up:
  assumes "addr_step (ctx s) \<noteq> 0"
    and "unat nbytes mod unat (addr_step (ctx s)) \<noteq> 0"
    and "ceil_units (addr_step (ctx s)) nbytes * unat (addr_step (ctx s)) < 2 ^ 32"
    and "resp s = concat (map unit_words us) @ rest"
    and "list_all (unit_ok (ctx s)) us"
    and "length us = ceil_units (addr_step (ctx s)) nbytes"
  shows "unat (align_nbytes (addr_step (ctx s)) nbytes) =
           ceil_units (addr_step (ctx s)) nbytes * unat (addr_step (ctx s)) \<and>
         unat nbytes < unat (align_nbytes (addr_step (ctx s)) nbytes) \<and>
         (\<exists>s'. intel_prog_dev mr offset srcaddr nbytes s = Inr (INTEL_STATUS_READY, s') \<and>
            data_writes (trace s') = data_writes (trace s) @
              map (\<lambda>i. (offset + of_nat (i * unat (addr_step (ctx s))),
                         mr (srcaddr + of_nat (i * unat (addr_step (ctx s))))))
                [0..<ceil_units (addr_step (ctx s)) nbytes])"
proof (intro conjI)
  let ?k = "unat (addr_step (ctx s))"
  have k: "0 < ?k" using assms(1) by (simp add: unat_gt_0)
  show a: "unat (align_nbytes (addr_step (ctx s)) nbytes) =
      ceil_units (addr_step (ctx s)) nbytes * ?k"
    using assms(1,3) by (rule align_nbytes_unat)
  have "ceil_units (addr_step (ctx s)) nbytes * ?k =
      (if unat nbytes mod ?k = 0 then unat nbytes else unat nbytes + ?k - unat nbytes mod ?k)"
    unfolding ceil_units_def by (rule ceil_mult [OF k])
  with assms(2) have
    "ceil_units (addr_step (ctx s)) nbytes * ?k = unat nbytes + ?k - unat nbytes mod ?k"
    by simp
  moreover have "unat nbytes mod ?k < ?k" using k by simp
  ultimately show "unat nbytes < unat (align_nbytes (addr_step (ctx s)) nbytes)"
    using a by simp
  from intel_prog_dev_tape [OF assms(1,3,4,5,6), of mr offset srcaddr]
  show "\<exists>s'. intel_prog_dev mr offset srcaddr nbytes s = Inr (INTEL_STATUS_READY, s') \<and>
            data_writes (trace s') = data_writes (trace s) @
              map (\<lambda>i. (offset + of_nat (i * ?k), mr (srcaddr + of_nat (i * ?k))))
                [0..<ceil_units (addr_step (ctx s)) nbytes]"
    by blast
qed

text \<open>
  The scenario of the claim: 5 bytes with \<^verbatim>\<open>addr_step\<close> 2 are rounded to 6, and three
  units are written, at offsets 0x100, 0x102 and 0x104.
\<close>

theorem prog_dev_rounds_up_witness:
  "unat (align_nbytes 2 5) = 6 \<and>
   (\<exists>s'. intel_prog_dev id 0x100 0x2000 5 (x16_state [0x80, 0x80, 0x80, 0x80, 0x80, 0x80]) =
           Inr (INTEL_STATUS_READY, s') \<and>
         data_writes (trace s') = [(0x100, 0x2000), (0x102, 0x2002), (0x104, 0x2004)])"
proof -
  let ?s = "x16_state [0x80, 0x80, 0x80, 0x80, 0x80, 0x80]"
  let ?us = "[([], 0x80, 0x80), ([], 0x80, 0x80), ([], 0x80, 0x80)] :: (u32 list \<times> u32 \<times> u32) list"
  have c: "ceil_units 2 5 = 3" by (simp add: ceil_units_def)
  have h1: "addr_step (ctx ?s) \<noteq> 0" by simp
  have h2: "unat (5 :: u32) mod unat (addr_step (ctx ?s)) \<noteq> 0" by simp
  have h3: "ceil_units (addr_step (ctx ?s)) 5 * unat (addr_step (ctx ?s)) < 2 ^ 32"
    by (simp add: c)
  have h4: "resp ?s = concat (map unit_words ?us) @ []" by simp
  have h5: "list_all (unit_ok (ctx ?s)) ?us" by (simp add: status_decode_def)
  have h6: "length ?us = ceil_units (addr_step (ctx ?s)) 5" by (simp add: c)
  have u: "[0..<3] = [0, 1, 2]" by (simp add: upt_rec)
  from prog_dev_rounds_up [OF h1 h2 h3 h4 h5 h6, of id "0x100" "0x2000"]
  show ?thesis by (simp add: c u)
qed

text \<open>
  Against C5 as stated: with \<^verbatim>\<open>addr_step\<close> 2 the byte count 0xFFFFFFFF is not a multiple
  of the step, and \<open>ceil (nbytes / addr_step)\<close> is \<open>2 ^ 31\<close>; but the rounded count wraps
  around to 0, and \<^verbatim>\<open>intel_prog_dev\<close> returns ready after the reset of the block, without
  writing any unit.
\<close>

theorem prog_dev_rounds_up_counterexample:
  "unat (0xFFFFFFFF :: u32) mod unat (addr_step (ctx (x16_state []))) \<noteq> 0 \<and>
   ceil_units (addr_step (ctx (x16_state []))) 0xFFFFFFFF = 2 ^ 31 \<and>
   align_nbytes (addr_step (ctx (x16_state []))) 0xFFFFFFFF = 0 \<and>
   intel_prog_dev id 0 0x2000 0xFFFFFFFF (x16_state []) =
     Inr (INTEL_STATUS_READY, intel_rst_blk 0 (x16_state [])) \<and>
   data_writes (trace (intel_rst_blk 0 (x16_state []))) = []"
proof (intro conjI)
  show "unat (0xFFFFFFFF :: u32) mod unat (addr_step (ctx (x16_state []))) \<noteq> 0" by simp
  show "ceil_units (addr_step (ctx (x16_state []))) 0xFFFFFFFF = 2 ^ 31"
    by (simp add: ceil_units_def)
  show a: "align_nbytes (addr_step (ctx (x16_state []))) 0xFFFFFFFF = 0"
    by (simp add: align_nbytes_def)
  have "ADDR_TO_BLKADDR (x16_state []) 0 = 0" by (simp add: ADDR_TO_BLKADDR_def)
  then show "intel_prog_dev id 0 0x2000 0xFFFFFFFF (x16_state []) =
     Inr (INTEL_STATUS_READY, intel_rst_blk 0 (x16_state []))"
    using a by (simp add: intel_prog_dev_def Let_def prog_loop.simps)
  show "data_writes (trace (intel_rst_blk 0 (x16_state []))) = []" by simp
qed

section \<open>Programming: the number of passes of the loop\<close>

text \<open>
  C10, as the code has it. With \<^verbatim>\<open>addr_step\<close> 0 the modulo of the alignment is undefined.
  With \<^verbatim>\<open>addr_step\<close> non-zero and the rounded count \<open>ceil (nbytes / addr_step) * addr_step\<close>
  below \<open>2 ^ 32\<close>, the aligned counter is that count, an exact multiple of the step; and
  when the device answers each pass with a ready word after finitely many busy words and
  with a status that decodes to ready, \<^verbatim>\<open>intel_prog_dev\<close> returns ready after exactly
  \<open>ceil (nbytes / addr_step)\<close> passes of the loop, one data write each, having read exactly
  the answers to these passes.
\<close>

theorem prog_loop_passes:
  "(addr_step (ctx s) = 0 \<longrightarrow> intel_prog_dev mr offset srcaddr nbytes s = Inl DivByZero) \<and>
   (addr_step (ctx s) \<noteq> 0 \<and>
    ceil_units (addr_step (ctx s)) nbytes * unat (addr_step (ctx s)) < 2 ^ 32 \<longrightarrow>
      unat (align_nbytes (addr_step (ctx s)) nbytes) =
        ceil_units (addr_step (ctx s)) nbytes * unat (addr_step (ctx s)) \<and>
      (resp s = concat (map unit_words us) @ rest \<and> list_all (unit_ok (ctx s)) us \<and>
       length us = ceil_units (addr_step (ctx s)) nbytes \<longrightarrow>
         (\<exists>s'. intel_prog_dev mr offset srcaddr nbytes s = Inr (INTEL_STATUS_READY, s') \<and>
            resp s' = rest \<and>
            length (data_writes (trace s')) =
              length (data_writes (trace s)) + ceil_units (addr_step (ctx s)) nbytes)))"
proof (intro conjI impI)
  assume "addr_step (ctx s) = 0"
  then show "intel_prog_dev mr offset srcaddr nbytes s = Inl DivByZero"
    by (simp add: intel_prog_dev_def Let_def)
next
  assume a: "addr_step (ctx s) \<noteq> 0 \<and>
    ceil_units (addr_step (ctx s)) nbytes * unat (addr_step (ctx s)) < 2 ^ 32"
  then show "unat (align_nbytes (addr_step (ctx s)) nbytes) =
        ceil_units (addr_step (ctx s)) nbytes * unat (addr_step (ctx s))"
    by (simp add: align_nbytes_unat)
  assume b: "resp s = concat (map unit_words us) @ rest \<and> list_all (unit_ok (ctx s)) us \<and>
       length us = ceil_units (addr_step (ctx s)) nbytes"
  from a b have h: "addr_step (ctx s) \<noteq> 0"
    "ceil_units (addr_step (ctx s)) nbytes * unat (addr_step (ctx s)) < 2 ^ 32"
    "resp s = concat (map unit_words us) @ rest" "list_all (unit_ok (ctx s)) us"
    "length us = ceil_units (addr_step (ctx s)) nbytes"
    by blast+
  from intel_prog_dev_tape [OF h, of mr offset srcaddr] obtain s' where
    "intel_prog_dev mr offset srcaddr nbytes s = Inr (INTEL_STATUS_READY, s')"
    "resp s' = rest"
    "length (data_writes (trace s')) =
       length (data_writes (trace s)) + ceil_units (addr_step (ctx s)) nbytes"
    by auto
  then show "\<exists>s'. intel_prog_dev mr offset srcaddr nbytes s = Inr (INTEL_STATUS_READY, s') \<and>
            resp s' = rest \<and>
            length (data_writes (trace s')) =
              length (data_writes (trace s)) + ceil_units (addr_step (ctx s)) nbytes"
    by blast
qed

text \<open>
  Eight bytes on the 32-bit device, the first unit busy for two reads: two passes. And
  on a device whose \<^verbatim>\<open>addr_step\<close> is 0, the division by zero.
\<close>

theorem prog_loop_passes_witness:
  "intel_prog_dev id 0 0x2000 8
     (intel_init_dev_params form_cmd_x1 (devinfo_x16\<lparr>di_addr_step := 0\<rparr>) (boot_state [])) =
     Inl DivByZero \<and>
   unat (align_nbytes 4 8) = 8 \<and>
   (\<exists>s'. intel_prog_dev id 0 0x2000 8 (x32_state [0, 0, 0x80, 0x80, 0x80, 0x80, 0x55]) =
           Inr (INTEL_STATUS_READY, s') \<and>
         resp s' = [0x55] \<and> length (data_writes (trace s')) = 2)"
proof (intro conjI)
  let ?s = "x32_state [0, 0, 0x80, 0x80, 0x80, 0x80, 0x55]"
  let ?us = "[([0, 0], 0x80, 0x80), ([], 0x80, 0x80)] :: (u32 list \<times> u32 \<times> u32) list"
  let ?z = "intel_init_dev_params form_cmd_x1 (devinfo_x16\<lparr>di_addr_step := 0\<rparr>) (boot_state [])"
  have c: "ceil_units 4 8 = 2" by (simp add: ceil_units_def)
  have z: "addr_step (ctx ?z) = 0" by (simp add: intel_init_dev_params_def)
  from prog_loop_passes [of ?z id 0 "0x2000" 8] z
  show "intel_prog_dev id 0 0x2000 8 ?z = Inl DivByZero"
    by blast
  have a: "addr_step (ctx ?s) \<noteq> 0 \<and>
      ceil_units (addr_step (ctx ?s)) 8 * unat (addr_step (ctx ?s)) < 2 ^ 32"
    by (simp add: c)
  have b: "resp ?s = concat (map unit_words ?us) @ [0x55] \<and> list_all (unit_ok (ctx ?s)) ?us \<and>
      length ?us = ceil_units (addr_step (ctx ?s)) 8"
    by (simp add: c status_decode_def)
  note t = prog_loop_passes [of ?s id 0 "0x2000" 8 ?us "[0x55]"]
  from t a have "unat (align_nbytes (addr_step (ctx ?s)) 8) =
      ceil_units (addr_step (ctx ?s)) 8 * unat (addr_step (ctx ?s))"
    by blast
  then show "unat (align_nbytes 4 8) = 8" by (simp add: c)
  from t a b have "\<exists>s'. intel_prog_dev id 0 0x2000 8 ?s = Inr (INTEL_STATUS_READY, s') \<and>
      resp s' = [0x55] \<and>
      length (data_writes (trace s')) =
        length (data_writes (trace ?s)) + ceil_units (addr_step (ctx ?s)) 8"
    by blast
  then show "\<exists>s'. intel_prog_dev id 0 0x2000 8 ?s = Inr (INTEL_STATUS_READY, s') \<and>
         resp s' = [0x55] \<and> length (data_writes (trace s')) = 2"
    by (auto simp: c)
qed

text \<open>
  Against C10 as stated. On the 32-bit device (\<^verbatim>\<open>addr_step\<close> 4) the byte count 0xFFFFFFFE
  has \<open>ceil (nbytes / addr_step) = 2 ^ 30\<close>, but the aligned counter wraps around to 0 and
  the loop makes no pass at all. And with a step of 6 the byte count 0xFFFFFFFF is
  aligned to 2, which is not a multiple of 6, so that the first pass of the loop takes the
  counter below zero, to 0xFFFFFFFC.
\<close>

theorem prog_loop_passes_counterexample:
  "addr_step (ctx (x32_state [])) \<noteq> 0 \<and>
   ceil_units (addr_step (ctx (x32_state []))) 0xFFFFFFFE = 2 ^ 30 \<and>
   intel_prog_dev id 0 0x2000 0xFFFFFFFE (x32_state []) =
     Inr (INTEL_STATUS_READY, intel_rst_blk 0 (x32_state [])) \<and>
   length (data_writes (trace (intel_rst_blk 0 (x32_state [])))) = 0 \<and>
   align_nbytes 6 0xFFFFFFFF = 2 \<and> (2 :: u32) mod ucast (6 :: u8) \<noteq> 0 \<and>
   (2 :: u32) - ucast (6 :: u8) = 0xFFFFFFFC"
proof (intro conjI)
  show "addr_step (ctx (x32_state [])) \<noteq> 0" by simp
  show "ceil_units (addr_step (ctx (x32_state []))) 0xFFFFFFFE = 2 ^ 30"
    by (simp add: ceil_units_def)
  have a: "align_nbytes (addr_step (ctx (x32_state []))) 0xFFFFFFFE = 0"
    by (simp add: align_nbytes_def)
  have "ADDR_TO_BLKADDR (x32_state []) 0 = 0" by (simp add: ADDR_TO_BLKADDR_def)
  then show "intel_prog_dev id 0 0x2000 0xFFFFFFFE (x32_state []) =
     Inr (INTEL_STATUS_READY, intel_rst_blk 0 (x32_state []))"
    using a by (simp add: intel_prog_dev_def Let_def prog_loop.simps)
  show "length (data_writes (trace (intel_rst_blk 0 (x32_state [])))) = 0" by simp
  show "align_nbytes 6 0xFFFFFFFF = 2" by (simp add: align_nbytes_def)
  show "(2 :: u32) mod ucast (6 :: u8) \<noteq> 0" by simp
  show "(2 :: u32) - ucast (6 :: u8) = 0xFFFFFFFC" by simp
qed

section \<open>Lock and unlock\<close>

text \<open>
  C8. \<^verbatim>\<open>intel_lock_block\<close> and \<^verbatim>\<open>intel_unlock_block\<close> are one and the same sequence
  (change-lock command, confirm byte, settle delay, busy-wait for the ready mask, second
  settle delay, status decode, reset of the block, decoded result), run with the confirm
  byte 0x01 and 0xd0: whatever the device answers, each equals \<open>change_lock_block\<close> at its
  confirm byte. On a tape where the device gets ready, both return the same decoded
  status, leave the same tape, and issue the same events but for the confirm byte.
\<close>

theorem lock_unlock_symmetric:
  "intel_lock_block blkaddr s = change_lock_block INTEL_SET_LOCK_BIT blkaddr s \<and>
   intel_unlock_block blkaddr s = change_lock_block INTEL_CLEAR_LOCK_BITS blkaddr s \<and>
   INTEL_SET_LOCK_BIT = 0x01 \<and> INTEL_CLEAR_LOCK_BITS = 0xd0 \<and>
   (resp s = busy @ r # st # rest \<and>
    list_all (\<lambda>w. w AND sr7flag (ctx s) \<noteq> sr7flag (ctx s)) busy \<and>
    r AND sr7flag (ctx s) = sr7flag (ctx s) \<longrightarrow>
      intel_lock_block blkaddr s =
        Inr (status_decode (ctx s) st,
             s\<lparr>trace := trace s @
                    change_lock_events s INTEL_SET_LOCK_BIT blkaddr (length busy),
               resp := rest\<rparr>) \<and>
      intel_unlock_block blkaddr s =
        Inr (status_decode (ctx s) st,
             s\<lparr>trace := trace s @
                    change_lock_events s INTEL_CLEAR_LOCK_BITS blkaddr (length busy),
               resp := rest\<rparr>))"
  by (simp add: intel_lock_block_change_lock intel_unlock_block_change_lock
      change_lock_block_tape change_lock_events_def INTEL_SET_LOCK_BIT_def
      INTEL_CLEAR_LOCK_BITS_def)

lemma x16_state_upd:
  "(x16_state tape)\<lparr>trace := tr, resp := rest\<rparr> = (x16_state rest)\<lparr>trace := tr\<rparr>"
  by (simp add: x16_state_def intel_init_dev_params_def boot_state_def)

lemma x16_BLKADDR_TO_ADDR_2: "BLKADDR_TO_ADDR (x16_state tape) 2 = 4"
  by (simp add: BLKADDR_TO_ADDR_def devinfo_x16_def)

theorem lock_unlock_symmetric_witness:
  "intel_lock_block 2 (x16_state [0, 0x80, 0x82, 0x55]) =
     Inr (INTEL_STATUS_LOCK_ERR,
          (x16_state [0x55])\<lparr>trace :=
            [CmdWrite 2 0x60, CmdWrite 2 0x01, StatusDelay, DataRead 4, DataRead 4,
             StatusDelay, CmdWrite 2 0x70, DataRead 4,
             CmdWrite 0 0x50, CmdWrite 2 0xff, StatusDelay]\<rparr>) \<and>
   intel_unlock_block 2 (x16_state [0, 0x80, 0x82, 0x55]) =
     Inr (INTEL_STATUS_LOCK_ERR,
          (x16_state [0x55])\<lparr>trace :=
            [CmdWrite 2 0x60, CmdWrite 2 0xd0, StatusDelay, DataRead 4, DataRead 4,
             StatusDelay, CmdWrite 2 0x70, DataRead 4,
             CmdWrite 0 0x50, CmdWrite 2 0xff, StatusDelay]\<rparr>)"
proof -
  let ?s = "x16_state [0, 0x80, 0x82, 0x55]"
  have h: "resp ?s = [0] @ 0x80 # 0x82 # [0x55] \<and>
      list_all (\<lambda>w. w AND sr7flag (ctx ?s) \<noteq> sr7flag (ctx ?s)) [0] \<and>
      0x80 AND sr7flag (ctx ?s) = sr7flag (ctx ?s)"
    by simp
  have d: "status_decode (ctx ?s) 0x82 = INTEL_STATUS_LOCK_ERR"
    by (simp add: status_decode_def)
  from lock_unlock_symmetric [of 2 ?s "[0]" "0x80" "0x82" "[0x55]"] h
  have "intel_lock_block 2 ?s =
        Inr (status_decode (ctx ?s) 0x82,
             ?s\<lparr>trace := trace ?s @ change_lock_events ?s INTEL_SET_LOCK_BIT 2 (length [0 :: u32]),
               resp := [0x55]\<rparr>) \<and>
      intel_unlock_block 2 ?s =
        Inr (status_decode (ctx ?s) 0x82,
             ?s\<lparr>trace := trace ?s @ change_lock_events ?s INTEL_CLEAR_LOCK_BITS 2 (length [0 :: u32]),
               resp := [0x55]\<rparr>)"
    by blast
  then show ?thesis
    by (simp add: d change_lock_events_def reset_events_def x16_BLKADDR_TO_ADDR_2 intel_cmds
        x16_state_upd)
qed

section \<open>Erase of one block\<close>

lemma intel_blk_erase_dev_tape_no_unlock:
  assumes "resp s = busy @ r # st # rest"
    and "list_all (\<lambda>w. w AND sr7flag (ctx s) \<noteq> sr7flag (ctx s)) busy"
    and "r AND sr7flag (ctx s) = sr7flag (ctx s)"
  shows "intel_blk_erase_dev True b s =
     Inr (status_decode (ctx s) st,
          s\<lparr>trace := trace s @ blk_erase_events s b (length busy), resp := rest\<rparr>)"
  using assms
  by (simp add: intel_blk_erase_dev_def blk_erase_cmds_tape blk_erase_events_def)

lemma intel_blk_erase_dev_tape_unlock:
  assumes "resp s = ubusy @ ur # ust # busy @ r # st # rest"
    and "list_all (\<lambda>w. w AND sr7flag (ctx s) \<noteq> sr7flag (ctx s)) ubusy"
    and "ur AND sr7flag (ctx s) = sr7flag (ctx s)"
    and "status_decode (ctx s) ust = INTEL_STATUS_READY"
    and "list_all (\<lambda>w. w AND sr7flag (ctx s) \<noteq> sr7flag (ctx s)) busy"
    and "r AND sr7flag (ctx s) = sr7flag (ctx s)"
  shows "intel_blk_erase_dev False b s =
     Inr (status_decode (ctx s) st,
          s\<lparr>trace := trace s @ change_lock_events s INTEL_CLEAR_LOCK_BITS b (length ubusy) @
                   blk_erase_events s b (length busy),
            resp := rest\<rparr>)"
proof -
  let ?s1 = "s\<lparr>trace := trace s @
      change_lock_events s INTEL_CLEAR_LOCK_BITS b (length ubusy),
      resp := busy @ r # st # rest\<rparr>"
  have u: "intel_unlock_block b s = Inr (INTEL_STATUS_READY, ?s1)"
    using assms(1,2,3,4)
    by (simp add: intel_unlock_block_change_lock change_lock_events_def
        change_lock_block_tape [where rest = "busy @ r # st # rest"])
  have e: "blk_erase_cmds b ?s1 =
      Inr (status_decode (ctx ?s1) st,
           ?s1\<lparr>trace := trace ?s1 @
               [CmdWrite b INTEL_BLOCK_ERASE, CmdWrite b INTEL_CONFIRM, StatusDelay] @
               replicate (Suc (length busy)) (DataRead (BLKADDR_TO_ADDR ?s1 b)) @
               [CmdWrite b INTEL_READ_STATUS, DataRead (BLKADDR_TO_ADDR ?s1 b)] @
               reset_events b,
             resp := rest\<rparr>)"
    using assms(5,6) by (intro blk_erase_cmds_tape) simp_all
  have a: "BLKADDR_TO_ADDR ?s1 b = BLKADDR_TO_ADDR s b"
    by (simp add: BLKADDR_TO_ADDR_def)
  show ?thesis
    by (simp add: intel_blk_erase_dev_def u e a blk_erase_events_def)
qed

text \<open>
  C7. On the 16-bit device (one region at offset 0, 4 blocks of 0x10000 bytes,
  \<^verbatim>\<open>addr_step\<close> 2, \<^verbatim>\<open>addr_shift\<close> 1) the erase of block address 2 issues the erase command
  0x20 and the confirm byte 0xd0 at command address 2, reads the status word at byte
  address 4 until the ready mask 0x80 is set in it, reads the status at block 2, and
  resets block 2: clear status, then read array at command address 2. When the build
  unlocks before the erase, the unlock of block 2 comes first, and the erase follows when
  the unlock decodes to ready.
\<close>

theorem blk_erase_block_2:
  assumes "list_all (\<lambda>w. w AND 0x80 \<noteq> 0x80) busy" and "r AND 0x80 = 0x80"
  shows "intel_blk_erase_dev True 2 (x16_state (busy @ r # st # rest)) =
     Inr (status_decode (ctx (x16_state [])) st,
          (x16_state rest)\<lparr>trace :=
             [CmdWrite 2 0x20, CmdWrite 2 0xd0, StatusDelay] @
             replicate (Suc (length busy)) (DataRead 4) @
             [CmdWrite 2 0x70, DataRead 4,
              CmdWrite 0 0x50, CmdWrite 2 0xff, StatusDelay]\<rparr>) \<and>
   (list_all (\<lambda>w. w AND 0x80 \<noteq> 0x80) ubusy \<and> ur AND 0x80 = 0x80 \<and>
    status_decode (ctx (x16_state [])) ust = INTEL_STATUS_READY \<longrightarrow>
    intel_blk_erase_dev False 2 (x16_state (ubusy @ ur # ust # busy @ r # st # rest)) =
     Inr (status_decode (ctx (x16_state [])) st,
          (x16_state rest)\<lparr>trace :=
             [CmdWrite 2 0x60, CmdWrite 2 0xd0, StatusDelay] @
             replicate (Suc (length ubusy)) (DataRead 4) @
             [StatusDelay, CmdWrite 2 0x70, DataRead 4,
              CmdWrite 0 0x50, CmdWrite 2 0xff, StatusDelay] @
             [CmdWrite 2 0x20, CmdWrite 2 0xd0, StatusDelay] @
             replicate (Suc (length busy)) (DataRead 4) @
             [CmdWrite 2 0x70, DataRead 4,
              CmdWrite 0 0x50, CmdWrite 2 0xff, StatusDelay]\<rparr>))"
proof (intro conjI impI)
  have c: "ctx (x16_state tape) = ctx (x16_state [])" for tape
    by (simp add: x16_state_def intel_init_dev_params_def boot_state_def)
  let ?s = "x16_state (busy @ r # st # rest)"
  have "intel_blk_erase_dev True 2 ?s =
     Inr (status_decode (ctx ?s) st,
          ?s\<lparr>trace := trace ?s @ blk_erase_events ?s 2 (length busy), resp := rest\<rparr>)"
    using assms
    by (intro intel_blk_erase_dev_tape_no_unlock [where busy = busy and r = r and st = st
          and rest = rest]) simp_all
  then show "intel_blk_erase_dev True 2 ?s =
     Inr (status_decode (ctx (x16_state [])) st,
          (x16_state rest)\<lparr>trace :=
             [CmdWrite 2 0x20, CmdWrite 2 0xd0, StatusDelay] @
             replicate (Suc (length busy)) (DataRead 4) @
             [CmdWrite 2 0x70, DataRead 4,
              CmdWrite 0 0x50, CmdWrite 2 0xff, StatusDelay]\<rparr>)"
    by (simp add: c [of "busy @ r # st # rest"] blk_erase_events_def reset_events_def
        x16_BLKADDR_TO_ADDR_2 intel_cmds x16_state_upd)
next
  have c: "ctx (x16_state tape) = ctx (x16_state [])" for tape
    by (simp add: x16_state_def intel_init_dev_params_def boot_state_def)
  let ?s = "x16_state (ubusy @ ur # ust # busy @ r # st # rest)"
  assume u: "list_all (\<lambda>w. w AND 0x80 \<noteq> 0x80) ubusy \<and> ur AND 0x80 = 0x80 \<and>
    status_decode (ctx (x16_state [])) ust = INTEL_STATUS_READY"
  have "intel_blk_erase_dev False 2 ?s =
     Inr (status_decode (ctx ?s) st,
          ?s\<lparr>trace := trace ?s @ change_lock_events ?s INTEL_CLEAR_LOCK_BITS 2 (length ubusy) @
                   blk_erase_events ?s 2 (length busy),
            resp := rest\<rparr>)"
    using assms u
    by (intro intel_blk_erase_dev_tape_unlock [where ubusy = ubusy and ur = ur and ust = ust
          and busy = busy and r = r and st = st and rest = rest])
      (simp_all add: c [of "ubusy @ ur # ust # busy @ r # st # rest"])
  then show "intel_blk_erase_dev False 2 ?s =
     Inr (status_decode (ctx (x16_state [])) st,
          (x16_state rest)\<lparr>trace :=
             [CmdWrite 2 0x60, CmdWrite 2 0xd0, StatusDelay] @
             replicate (Suc (length ubusy)) (DataRead 4) @
             [StatusDelay, CmdWrite 2 0x70, DataRead 4,
              CmdWrite 0 0x50, CmdWrite 2 0xff, StatusDelay] @
             [CmdWrite 2 0x20, CmdWrite 2 0xd0, StatusDelay] @
             replicate (Suc (length busy)) (DataRead 4) @
             [CmdWrite 2 0x70, DataRead 4,
              CmdWrite 0 0x50, CmdWrite 2 0xff, StatusDelay]\<rparr>)"
    by (simp add: c [of "ubusy @ ur # ust # busy @ r # st # rest"] blk_erase_events_def
        change_lock_events_def reset_events_def x16_BLKADDR_TO_ADDR_2 intel_cmds
        x16_state_upd)
qed

text \<open>
  A run of the scenario: the device is busy for two reads of the erase, then ready, and
  the status read is 0x80.
\<close>

theorem blk_erase_block_2_witness:
  "intel_blk_erase_dev True 2 (x16_state [0, 0, 0x80, 0x80]) =
     Inr (INTEL_STATUS_READY,
          (x16_state [])\<lparr>trace :=
             [CmdWrite 2 0x20, CmdWrite 2 0xd0, StatusDelay,
              DataRead 4, DataRead 4, DataRead 4,
              CmdWrite 2 0x70, DataRead 4,
              CmdWrite 0 0x50, CmdWrite 2 0xff, StatusDelay]\<rparr>) \<and>
   intel_blk_erase_dev False 2 (x16_state [0x80, 0x80, 0, 0, 0x80, 0x80]) =
     Inr (INTEL_STATUS_READY,
          (x16_state [])\<lparr>trace :=
             [CmdWrite 2 0x60, CmdWrite 2 0xd0, StatusDelay, DataRead 4,
              StatusDelay, CmdWrite 2 0x70, DataRead 4,
              CmdWrite 0 0x50, CmdWrite 2 0xff, StatusDelay,
              CmdWrite 2 0x20, CmdWrite 2 0xd0, StatusDelay,
              DataRead 4, DataRead 4, DataRead 4,
              CmdWrite 2 0x70, DataRead 4,
              CmdWrite 0 0x50, CmdWrite 2 0xff, StatusDelay]\<rparr>)"
proof -
  have h1: "list_all (\<lambda>w. w AND 0x80 \<noteq> 0x80) [0, 0 :: u32]" by simp
  have h2: "(0x80 :: u32) AND 0x80 = 0x80" by simp
  have h3: "list_all (\<lambda>w. w AND 0x80 \<noteq> 0x80) ([] :: u32 list) \<and> (0x80 :: u32) AND 0x80 = 0x80 \<and>
    status_decode (ctx (x16_state [])) 0x80 = INTEL_STATUS_READY"
    by (simp add: status_decode_def)
  have d: "status_decode (ctx (x16_state [])) 0x80 = INTEL_STATUS_READY"
    by (simp add: status_decode_def)
  note t = blk_erase_block_2 [OF h1 h2, of "0x80" "[]" "[]" "0x80" "0x80"]
  from t h3 show ?thesis
    by (simp add: d)
qed

section \<open>The context is left alone\<close>

lemma intel_read_status_ctx: "intel_read_status b s = Inr (w, s') \<Longrightarrow> ctx s' = ctx s"
  by (auto simp: intel_read_status_def Let_def dest: fl_read_Inr)

lemma rst_dev_regions_ctx: "ctx (rst_dev_regions f i s) = ctx s"
  by (induction f i s rule: rst_dev_regions.induct)
    (subst rst_dev_regions.simps, simp add: rst_dev_blocks_ctx)

lemma erase_dev_regions_ctx:
  "erase_dev_regions nu f i s = Inr (st, s') \<Longrightarrow> ctx s' = ctx s"
proof (induction nu f i s rule: erase_dev_regions.induct)
  case (1 nu f i s)
  show ?case
  proof (cases "i < length (di_flgeo (devinf (ctx s)))")
    case False
    with "1.prems" show ?thesis
      by (subst (asm) erase_dev_regions.simps) simp
  next
    case True
    let ?o = "region_offset (di_flgeo (devinf (ctx s)) ! i)"
    from True "1.prems" obtain st1 s1 where
      e: "erase_dev_blocks nu f i 0 ?o s = Inr (st1, s1)"
      by (subst (asm) erase_dev_regions.simps) (auto split: sum.splits)
    note c1 = erase_dev_blocks_ctx [OF e]
    show ?thesis
    proof (cases "st1 = INTEL_STATUS_READY")
      case False
      with True e "1.prems" have "s' = s1"
        by (subst (asm) erase_dev_regions.simps) simp
      with c1 show ?thesis by simp
    next
      case ready: True
      with True e "1.prems" have "erase_dev_regions nu f (Suc i) s1 = Inr (st, s')"
        by (subst (asm) erase_dev_regions.simps) simp
      moreover from ready have "\<not> st1 \<noteq> INTEL_STATUS_READY" by simp
      ultimately have "ctx s' = ctx s1"
        by (rule "1.IH" [OF True e refl, rotated])
      with c1 show ?thesis by simp
    qed
  qed
qed

text \<open>
  Whenever the programming loop returns, the context is as before; and when it returns
  an error, the last events are the reset of a block.
\<close>

lemma prog_loop_Inr:
  "prog_loop mr offset srcaddr nbytes s = Inr (st, s') \<Longrightarrow>
     ctx s' = ctx s \<and> (st \<noteq> INTEL_STATUS_READY \<longrightarrow> (\<exists>b. ends_with_reset b s'))"
proof (induction mr offset srcaddr nbytes s rule: prog_loop.induct)
  case (1 mr offset srcaddr nbytes s)
  show ?case
  proof (cases "nbytes = 0")
    case True
    with "1.prems" show ?thesis
      by (subst (asm) prog_loop.simps) simp
  next
    case False
    let ?s3 = "intel_status_delay (fl_write offset (mr srcaddr)
      (fl_cmdwrite (drop_bit (unat (addr_shift (ctx s))) offset) INTEL_PROGRAM_WORD s))"
    from False "1.prems" obtain d s4 where p: "poll_ready (\<lambda>t. offset) ?s3 = Inr (d, s4)"
      by (subst (asm) prog_loop.simps) (auto simp: Let_def split: sum.splits)
    with False "1.prems" obtain st5 s5 where
      c: "intel_status_check (ADDR_TO_BLKADDR s4 offset) s4 = Inr (st5, s5)"
      by (subst (asm) prog_loop.simps) (auto simp: Let_def split: sum.splits)
    have c4: "ctx s4 = ctx s" using poll_ready_const_Inr [OF p] by simp
    have c5: "ctx s5 = ctx s4" using intel_status_check_Inr [OF c] by simp
    show ?thesis
    proof (cases "st5 = INTEL_STATUS_READY")
      case False
      with \<open>nbytes \<noteq> 0\<close> p c "1.prems" have
        "s' = intel_rst_blk (ADDR_TO_BLKADDR s5 offset) s5"
        by (subst (asm) prog_loop.simps) (simp add: Let_def)
      with c4 c5 show ?thesis
        using ends_with_reset_rst_blk by auto
    next
      case ready: True
      with \<open>nbytes \<noteq> 0\<close> p c "1.prems" have
        "prog_loop mr (offset + ucast (addr_step (ctx s5)))
           (srcaddr + ucast (addr_step (ctx s5)))
           (nbytes - ucast (addr_step (ctx s5))) s5 = Inr (st, s')"
        by (subst (asm) prog_loop.simps) (simp add: Let_def)
      moreover from ready have "\<not> st5 \<noteq> INTEL_STATUS_READY" by simp
      ultimately have "ctx s' = ctx s5 \<and>
          (st \<noteq> INTEL_STATUS_READY \<longrightarrow> (\<exists>b. ends_with_reset b s'))"
        by (rule "1.IH" [OF False refl refl refl refl p refl c refl, rotated])
      with c4 c5 show ?thesis by simp
    qed
  qed
qed

lemma intel_prog_dev_Inr:
  "intel_prog_dev mr offset srcaddr nbytes s = Inr (st, s') \<Longrightarrow>
     ctx s' = ctx s \<and> (st \<noteq> INTEL_STATUS_READY \<longrightarrow> (\<exists>b. ends_with_reset b s'))"
  using prog_loop_Inr [of mr offset srcaddr _ "intel_rst_blk (ADDR_TO_BLKADDR s offset) s" st s']
  by (auto simp: intel_prog_dev_def Let_def split: if_splits)

text \<open>
  C9. Only \<^verbatim>\<open>intel_init_dev_params\<close> writes the static variables (the seven masks, the
  device-info pointer, \<^verbatim>\<open>addr_step\<close> and \<^verbatim>\<open>addr_shift\<close>): whenever one of the other
  operations returns, the context is the one it was called with.
\<close>

theorem context_frame:
  "ctx (intel_rst_dev bof s) = ctx s \<and>
   ctx (intel_rst_blk blkaddr s) = ctx s \<and>
   ctx (intel_clear_status s) = ctx s \<and>
   ctx (intel_status_delay s) = ctx s \<and>
   (intel_read_status blkaddr s = Inr (w, s1) \<longrightarrow> ctx s1 = ctx s) \<and>
   (intel_status_check blkaddr s = Inr (st2, s2) \<longrightarrow> ctx s2 = ctx s) \<and>
   (intel_lock_block blkaddr s = Inr (st3, s3) \<longrightarrow> ctx s3 = ctx s) \<and>
   (intel_unlock_block blkaddr s = Inr (st4, s4) \<longrightarrow> ctx s4 = ctx s) \<and>
   (intel_blk_erase_dev no_unlock blkaddr s = Inr (st5, s5) \<longrightarrow> ctx s5 = ctx s) \<and>
   (intel_erase_dev no_unlock bof s = Inr (st6, s6) \<longrightarrow> ctx s6 = ctx s) \<and>
   (intel_prog_dev mr offset srcaddr nbytes s = Inr (st7, s7) \<longrightarrow> ctx s7 = ctx s)"
proof (intro conjI impI)
  show "ctx (intel_rst_dev bof s) = ctx s"
    by (simp add: intel_rst_dev_def rst_dev_regions_ctx)
  show "ctx (intel_rst_blk blkaddr s) = ctx s" by simp
  show "ctx (intel_clear_status s) = ctx s" by simp
  show "ctx (intel_status_delay s) = ctx s" by simp
  show "ctx s1 = ctx s" if "intel_read_status blkaddr s = Inr (w, s1)"
    using that by (rule intel_read_status_ctx)
  show "ctx s2 = ctx s" if "intel_status_check blkaddr s = Inr (st2, s2)"
    using intel_status_check_Inr [OF that] by simp
  show "ctx s3 = ctx s" if "intel_lock_block blkaddr s = Inr (st3, s3)"
    using that change_lock_block_Inr [of INTEL_SET_LOCK_BIT blkaddr s st3 s3]
    by (simp add: intel_lock_block_change_lock)
  show "ctx s4 = ctx s" if "intel_unlock_block blkaddr s = Inr (st4, s4)"
    using that change_lock_block_Inr [of INTEL_CLEAR_LOCK_BITS blkaddr s st4 s4]
    by (simp add: intel_unlock_block_change_lock)
  show "ctx s5 = ctx s" if "intel_blk_erase_dev no_unlock blkaddr s = Inr (st5, s5)"
    using intel_blk_erase_dev_Inr [OF that] by simp
  show "ctx s6 = ctx s" if "intel_erase_dev no_unlock bof s = Inr (st6, s6)"
    using that by (simp add: intel_erase_dev_def erase_dev_regions_ctx)
  show "ctx s7 = ctx s" if "intel_prog_dev mr offset srcaddr nbytes s = Inr (st7, s7)"
    using intel_prog_dev_Inr [OF that] by simp
qed

text \<open>
  On the 16-bit device: the reset of the whole device, a lock of block 2 that ends in a
  lock error, an erase of block 2 and the programming of two bytes all return with the
  context of the call.
\<close>

theorem context_frame_witness:
  "ctx (intel_rst_dev (\<lambda>m. 1) (x16_state [])) = ctx (x16_state []) \<and>
   (\<exists>s'. intel_lock_block 2 (x16_state [0x80, 0x82]) = Inr (INTEL_STATUS_LOCK_ERR, s') \<and>
         ctx s' = ctx (x16_state [0x80, 0x82])) \<and>
   (\<exists>s'. intel_blk_erase_dev True 2 (x16_state [0x80, 0x80]) = Inr (INTEL_STATUS_READY, s') \<and>
         ctx s' = ctx (x16_state [0x80, 0x80])) \<and>
   (\<exists>s'. intel_prog_dev id 0 0x2000 2 (x16_state [0x80, 0x80]) = Inr (INTEL_STATUS_READY, s') \<and>
         ctx s' = ctx (x16_state [0x80, 0x80]))"
proof (intro conjI)
  show "ctx (intel_rst_dev (\<lambda>m. 1) (x16_state [])) = ctx (x16_state [])"
    using context_frame [of "\<lambda>m. 1" "x16_state []"] by blast
next
  let ?s = "x16_state [0x80, 0x82]"
  have "change_lock_block INTEL_SET_LOCK_BIT 2 ?s =
      Inr (status_decode (ctx ?s) 0x82,
           ?s\<lparr>trace := trace ?s @
                 [CmdWrite 2 INTEL_CHANGE_LOCK, CmdWrite 2 INTEL_SET_LOCK_BIT, StatusDelay] @
                 replicate (Suc (length ([] :: u32 list))) (DataRead (BLKADDR_TO_ADDR ?s 2)) @
                 [StatusDelay, CmdWrite 2 INTEL_READ_STATUS, DataRead (BLKADDR_TO_ADDR ?s 2)] @
                 reset_events 2,
             resp := []\<rparr>)"
    by (rule change_lock_block_tape [where r = "0x80"]) simp_all
  moreover have "status_decode (ctx ?s) 0x82 = INTEL_STATUS_LOCK_ERR"
    by (simp add: status_decode_def)
  ultimately obtain s' where l: "intel_lock_block 2 ?s = Inr (INTEL_STATUS_LOCK_ERR, s')"
    by (simp add: intel_lock_block_change_lock)
  from context_frame [of _ ?s 2 _ _ _ _ INTEL_STATUS_LOCK_ERR s'] l
  have "ctx s' = ctx ?s" by blast
  with l show "\<exists>s'. intel_lock_block 2 ?s = Inr (INTEL_STATUS_LOCK_ERR, s') \<and> ctx s' = ctx ?s"
    by blast
next
  let ?s = "x16_state [0x80, 0x80]"
  have "intel_blk_erase_dev True 2 ?s =
     Inr (status_decode (ctx ?s) 0x80,
          ?s\<lparr>trace := trace ?s @ blk_erase_events ?s 2 (length ([] :: u32 list)), resp := []\<rparr>)"
    by (rule intel_blk_erase_dev_tape_no_unlock [where r = "0x80"]) simp_all
  moreover have "status_decode (ctx ?s) 0x80 = INTEL_STATUS_READY"
    by (simp add: status_decode_def)
  ultimately obtain s' where e: "intel_blk_erase_dev True 2 ?s = Inr (INTEL_STATUS_READY, s')"
    by simp
  from context_frame [of _ ?s 2 _ _ _ _ _ _ _ _ True INTEL_STATUS_READY s'] e
  have "ctx s' = ctx ?s" by blast
  with e show "\<exists>s'. intel_blk_erase_dev True 2 ?s = Inr (INTEL_STATUS_READY, s') \<and>
      ctx s' = ctx ?s"
    by blast
next
  let ?s = "x16_state [0x80, 0x80]"
  have c: "ceil_units 2 2 = 1" by (simp add: ceil_units_def)
  have "\<exists>s'. intel_prog_dev id 0 0x2000 2 ?s = Inr (INTEL_STATUS_READY, s') \<and>
     ctx s' = ctx ?s \<and> resp s' = [] \<and>
     data_writes (trace s') = data_writes (trace ?s) @
       map (\<lambda>i. (0 + of_nat (i * unat (addr_step (ctx ?s))),
                  id (0x2000 + of_nat (i * unat (addr_step (ctx ?s))))))
         [0..<ceil_units (addr_step (ctx ?s)) 2]"
    by (rule intel_prog_dev_tape [where us = "[([], 0x80, 0x80)]"])
      (simp_all add: c status_decode_def)
  then obtain s' where p: "intel_prog_dev id 0 0x2000 2 ?s = Inr (INTEL_STATUS_READY, s')"
    by blast
  from context_frame [of _ ?s _ _ _ _ _ _ _ _ _ _ _ _ _ _ id 0 "0x2000" 2 INTEL_STATUS_READY s'] p
  have "ctx s' = ctx ?s" by blast
  with p show "\<exists>s'. intel_prog_dev id 0 0x2000 2 ?s = Inr (INTEL_STATUS_READY, s') \<and>
      ctx s' = ctx ?s"
    by blast
qed

section \<open>Erase of the whole device\<close>

lemma erase_each_ctx: "erase_each nu bs s = Inr (st, s') \<Longrightarrow> ctx s' = ctx s"
proof (induction bs arbitrary: s)
  case Nil
  then show ?case by simp
next
  case (Cons b bs)
  from Cons.prems obtain st1 s1 where e: "intel_blk_erase_dev nu b s = Inr (st1, s1)"
    by (auto split: sum.splits)
  note c1 = intel_blk_erase_dev_Inr [OF e]
  show ?case
  proof (cases "st1 = INTEL_STATUS_READY")
    case True
    with Cons.prems e have "erase_each nu bs s1 = Inr (st, s')" by simp
    from Cons.IH [OF this] c1 show ?thesis by simp
  next
    case False
    with Cons.prems e c1 show ?thesis by auto
  qed
qed

lemma erase_each_append:
  "erase_each nu (as @ bs) s =
     (case erase_each nu as s of
        Inl e \<Rightarrow> Inl e
      | Inr (status, s1) \<Rightarrow>
          (if status \<noteq> INTEL_STATUS_READY then Inr (status, s1) else erase_each nu bs s1))"
proof (induction as arbitrary: s)
  case Nil
  show ?case by simp
next
  case (Cons a as)
  show ?case
    by (simp add: Cons.IH split: sum.splits)
qed

text \<open>The blocks of region \<open>i\<close> that the inner loop still has to visit at counter \<open>j\<close>.\<close>

lemma erase_dev_blocks_eq:
  "erase_dev_blocks nu f i j offset s =
     erase_each nu
       (region_blocks (f (di_part_mode (devinf (ctx s))))
          (region_blksiz (di_flgeo (devinf (ctx s)) ! i))
          (unat (region_nblks (di_flgeo (devinf (ctx s)) ! i)) - j) offset) s"
proof (induction nu f i j offset s rule: erase_dev_blocks.induct)
  case (1 nu f i j offset s)
  let ?n = "unat (region_nblks (di_flgeo (devinf (ctx s)) ! i))"
  let ?sh = "f (di_part_mode (devinf (ctx s)))"
  let ?bs = "region_blksiz (di_flgeo (devinf (ctx s)) ! i)"
  show ?case
  proof (cases "j < ?n")
    case False
    then show ?thesis
      by (subst erase_dev_blocks.simps) simp
  next
    case True
    then have n: "?n - j = Suc (?n - Suc j)" by simp
    let ?b = "drop_bit ?sh offset"
    show ?thesis
    proof (cases "intel_blk_erase_dev nu ?b s")
      case (Inl e)
      with True show ?thesis
        by (subst erase_dev_blocks.simps) (simp add: n Let_def)
    next
      case (Inr p)
      obtain st1 s1 where p: "p = (st1, s1)" by (cases p)
      with Inr have e: "intel_blk_erase_dev nu ?b s = Inr (st1, s1)" by simp
      have c1: "ctx s1 = ctx s" using intel_blk_erase_dev_Inr [OF e] by simp
      show ?thesis
      proof (cases "st1 = INTEL_STATUS_READY")
        case False
        with True e show ?thesis
          by (subst erase_dev_blocks.simps) (simp add: n Let_def)
      next
        case ready: True
        then have nn: "\<not> st1 \<noteq> INTEL_STATUS_READY" by simp
        have "erase_dev_blocks nu f i (Suc j)
            (offset + region_blksiz (di_flgeo (devinf (ctx s1)) ! i)) s1 =
          erase_each nu
            (region_blocks (f (di_part_mode (devinf (ctx s1))))
               (region_blksiz (di_flgeo (devinf (ctx s1)) ! i))
               (unat (region_nblks (di_flgeo (devinf (ctx s1)) ! i)) - Suc j)
               (offset + region_blksiz (di_flgeo (devinf (ctx s1)) ! i))) s1"
          by (rule "1.IH" [OF True refl e refl nn])
        with True e ready c1 show ?thesis
          by (subst erase_dev_blocks.simps) (simp add: n Let_def)
      qed
    qed
  qed
qed

lemma erase_dev_regions_eq:
  "erase_dev_regions nu f i s =
     erase_each nu
       (concat (map (\<lambda>r. region_blocks (f (di_part_mode (devinf (ctx s))))
                            (region_blksiz r) (unat (region_nblks r)) (region_offset r))
                    (drop i (di_flgeo (devinf (ctx s)))))) s"
proof (induction nu f i s rule: erase_dev_regions.induct)
  case (1 nu f i s)
  let ?rs = "di_flgeo (devinf (ctx s))"
  let ?g = "\<lambda>r. region_blocks (f (di_part_mode (devinf (ctx s))))
                   (region_blksiz r) (unat (region_nblks r)) (region_offset r)"
  show ?case
  proof (cases "i < length ?rs")
    case False
    then show ?thesis
      by (subst erase_dev_regions.simps) simp
  next
    case True
    then have d: "drop i ?rs = ?rs ! i # drop (Suc i) ?rs"
      by (simp add: Cons_nth_drop_Suc)
    have b: "erase_dev_blocks nu f i 0 (region_offset (?rs ! i)) s = erase_each nu (?g (?rs ! i)) s"
      by (simp add: erase_dev_blocks_eq)
    show ?thesis
    proof (cases "erase_each nu (?g (?rs ! i)) s")
      case (Inl e)
      with True b show ?thesis
        by (subst erase_dev_regions.simps) (simp add: d erase_each_append)
    next
      case (Inr p)
      obtain st1 s1 where p: "p = (st1, s1)" by (cases p)
      with Inr have e: "erase_each nu (?g (?rs ! i)) s = Inr (st1, s1)" by simp
      have c1: "ctx s1 = ctx s" using erase_each_ctx [OF e] .
      show ?thesis
      proof (cases "st1 = INTEL_STATUS_READY")
        case False
        with True b e show ?thesis
          by (subst erase_dev_regions.simps) (simp add: d erase_each_append)
      next
        case ready: True
        then have nn: "\<not> st1 \<noteq> INTEL_STATUS_READY" by simp
        from b e have e': "erase_dev_blocks nu f i 0 (region_offset (?rs ! i)) s = Inr (st1, s1)"
          by simp
        have "erase_dev_regions nu f (Suc i) s1 =
          erase_each nu
            (concat (map (\<lambda>r. region_blocks (f (di_part_mode (devinf (ctx s1))))
                                 (region_blksiz r) (unat (region_nblks r)) (region_offset r))
                         (drop (Suc i) (di_flgeo (devinf (ctx s1)))))) s1"
          by (rule "1.IH" [OF True e' refl nn])
        with True e' e ready c1 show ?thesis
          by (subst erase_dev_regions.simps) (simp add: d erase_each_append)
      qed
    qed
  qed
qed

lemma length_region_blocks [simp]: "length (region_blocks sh bs n offset) = n"
  by (induction n arbitrary: offset) simp_all

text \<open>
  C4. \<^verbatim>\<open>intel_erase_dev\<close> is the erase of each block address of the Block Iterator, in
  the order of the iterator, that stops at the first result other than ready and returns
  it, and returns ready when every block was erased; the iterator yields as many
  addresses as the regions have blocks.
\<close>

theorem erase_dev_is_erase_each_block:
  "intel_erase_dev no_unlock BYTE_OFFSET_FACTOR s =
     erase_device_spec no_unlock BYTE_OFFSET_FACTOR s \<and>
   length (block_iterator BYTE_OFFSET_FACTOR (devinf (ctx s))) =
     sum_list (map (\<lambda>r. unat (region_nblks r)) (di_flgeo (devinf (ctx s))))"
proof
  show "intel_erase_dev no_unlock BYTE_OFFSET_FACTOR s =
     erase_device_spec no_unlock BYTE_OFFSET_FACTOR s"
    by (simp add: intel_erase_dev_def erase_device_spec_def block_iterator_def
        erase_dev_regions_eq)
  show "length (block_iterator BYTE_OFFSET_FACTOR (devinf (ctx s))) =
     sum_list (map (\<lambda>r. unat (region_nblks r)) (di_flgeo (devinf (ctx s))))"
    by (simp add: block_iterator_def length_concat comp_def)
qed

lemma region_blocks_numeral:
  "region_blocks sh bs (numeral k) offset =
     drop_bit sh offset # region_blocks sh bs (pred_numeral k) (offset + bs)"
  by (simp add: numeral_eq_Suc)

lemma x16_block_iterator:
  "block_iterator (\<lambda>m. 1) devinfo_x16 = [0, 0x8000, 0x10000, 0x18000]"
  by (simp add: block_iterator_def devinfo_x16_def region_blocks_numeral drop_bit_eq_div)

text \<open>
  On the 16-bit device, whose iterator yields the four block addresses 0, 0x8000,
  0x10000 and 0x18000: the first block is erased, the second ends in an erase error, and
  the device erase returns that error without touching the last two blocks (the last two
  words of the tape are not read).
\<close>

theorem erase_dev_is_erase_each_block_witness:
  "\<exists>s'. intel_erase_dev True (\<lambda>m. 1) (x16_state [0x80, 0x80, 0x80, 0xa0, 0x80, 0x80]) =
          Inr (INTEL_STATUS_ERASE_ERR, s') \<and>
        resp s' = [0x80, 0x80] \<and>
        trace s' =
          blk_erase_events (x16_state []) 0 0 @ blk_erase_events (x16_state []) 0x8000 0"
proof -
  let ?s = "x16_state [0x80, 0x80, 0x80, 0xa0, 0x80, 0x80]"
  let ?s1 = "?s\<lparr>trace := trace ?s @ blk_erase_events ?s 0 (length ([] :: u32 list)),
               resp := [0x80, 0xa0, 0x80, 0x80]\<rparr>"
  let ?s2 = "?s1\<lparr>trace := trace ?s1 @ blk_erase_events ?s1 0x8000 (length ([] :: u32 list)),
                resp := [0x80, 0x80]\<rparr>"
  have d: "status_decode (ctx ?s) 0x80 = INTEL_STATUS_READY"
    "status_decode (ctx ?s) 0xa0 = INTEL_STATUS_ERASE_ERR"
    by (simp_all add: status_decode_def)
  have c: "ctx (x16_state tape) = ctx (x16_state [])" for tape
    by (simp add: x16_state_def intel_init_dev_params_def boot_state_def)
  have "intel_blk_erase_dev True 0 ?s = Inr (status_decode (ctx ?s) 0x80, ?s1)"
    by (rule intel_blk_erase_dev_tape_no_unlock [where r = "0x80"]) simp_all
  with d have e1: "intel_blk_erase_dev True 0 ?s = Inr (INTEL_STATUS_READY, ?s1)"
    by simp
  have "intel_blk_erase_dev True 0x8000 ?s1 = Inr (status_decode (ctx ?s1) 0xa0, ?s2)"
    by (rule intel_blk_erase_dev_tape_no_unlock [where r = "0x80"]) simp_all
  moreover have "status_decode (ctx ?s1) 0xa0 = INTEL_STATUS_ERASE_ERR"
    using d by simp
  ultimately have e2: "intel_blk_erase_dev True 0x8000 ?s1 = Inr (INTEL_STATUS_ERASE_ERR, ?s2)"
    by (simp only:)
  have "erase_each True [0, 0x8000, 0x10000, 0x18000] ?s = Inr (INTEL_STATUS_ERASE_ERR, ?s2)"
    by (simp only: erase_each.simps e1 e2 sum.case prod.case status_t.distinct simp_thms
        if_True if_False)
  moreover have "devinf (ctx ?s) = devinfo_x16" by simp
  ultimately have "erase_device_spec True (\<lambda>m. 1) ?s = Inr (INTEL_STATUS_ERASE_ERR, ?s2)"
    by (simp only: erase_device_spec_def x16_block_iterator)
  with erase_dev_is_erase_each_block [of True "\<lambda>m. 1" ?s]
  have "intel_erase_dev True (\<lambda>m. 1) ?s = Inr (INTEL_STATUS_ERASE_ERR, ?s2)"
    by simp
  moreover have "resp ?s2 = [0x80, 0x80]" by simp
  moreover have "trace ?s2 =
      blk_erase_events (x16_state []) 0 0 @ blk_erase_events (x16_state []) 0x8000 0"
    by (simp add: blk_erase_events_def BLKADDR_TO_ADDR_def)
  ultimately show ?thesis by blast
qed

section \<open>Block addresses and byte addresses\<close>

lemma drop_push_word:
  fixes b :: u32
  shows "drop_bit n (push_bit n b) = take_bit (32 - n) b"
  by (rule bit_word_eqI) (auto simp: bit_simps)

lemma take_bit_eq_self_unat:
  fixes b :: u32
  shows "(take_bit k b = b) = (unat b < 2 ^ k)"
proof -
  have "(take_bit k b = b) = (take_bit k (unat b) = unat b)"
    by (metis unsigned_take_bit_eq word_unat_eq_iff)
  then show ?thesis
    by (simp add: take_bit_nat_eq_self_iff)
qed

lemma unat_drop_bit_bound:
  fixes a :: u32
  shows "unat (drop_bit k a) < 2 ^ (32 - k)"
proof (cases "k \<le> 32")
  case True
  have "unat a < 2 ^ 32" using unsigned_less [of a] by simp
  also have "(2 :: nat) ^ 32 = 2 ^ k * 2 ^ (32 - k)"
    using True by (simp flip: power_add)
  finally have "unat a div 2 ^ k < 2 ^ (32 - k)"
    by (simp add: less_mult_imp_div_less mult.commute)
  then show ?thesis
    unfolding unat_drop_bit_eq by (simp add: drop_bit_eq_div)
next
  case False
  have "unat a < 2 ^ 32" using unsigned_less [of a] by simp
  also have "(2 :: nat) ^ 32 < 2 ^ k"
    using False by (intro power_strict_increasing) simp_all
  finally have "unat a div 2 ^ k = 0" by simp
  then show ?thesis
    unfolding unat_drop_bit_eq by (simp add: drop_bit_eq_div)
qed

lemma region_blocks_shifted:
  "b \<in> set (region_blocks sh bs n offset) \<Longrightarrow> \<exists>a. b = drop_bit sh a"
  by (induction n arbitrary: offset) auto

lemma block_iterator_shifted:
  "b \<in> set (block_iterator f di) \<Longrightarrow> \<exists>a. b = drop_bit (f (di_part_mode di)) a"
  by (auto simp: block_iterator_def dest: region_blocks_shifted)

lemma blkaddr_round_trip_iff:
  "(ADDR_TO_BLKADDR s (BLKADDR_TO_ADDR s x) = x) =
     (unat x < 2 ^ (32 - unat (di_addr_shift (devinf (ctx s)))))"
  by (simp add: ADDR_TO_BLKADDR_def BLKADDR_TO_ADDR_def drop_push_word take_bit_eq_self_unat)

lemma block_iterator_round_trip:
  assumes "unat (di_addr_shift (devinf (ctx s))) \<le> f (di_part_mode (devinf (ctx s)))"
    and "b \<in> set (block_iterator f (devinf (ctx s)))"
  shows "ADDR_TO_BLKADDR s (BLKADDR_TO_ADDR s b) = b"
proof -
  let ?sh = "unat (di_addr_shift (devinf (ctx s)))"
  let ?f = "f (di_part_mode (devinf (ctx s)))"
  from block_iterator_shifted [OF assms(2)] obtain a where a: "b = drop_bit ?f a" by blast
  have "unat b < 2 ^ (32 - ?f)" unfolding a by (rule unat_drop_bit_bound)
  also have "(2 :: nat) ^ (32 - ?f) \<le> 2 ^ (32 - ?sh)"
    using assms(1) by (intro power_increasing) simp_all
  finally show ?thesis
    by (simp add: blkaddr_round_trip_iff)
qed

text \<open>
  C6. The two conversions are the shifts by \<^verbatim>\<open>addr_shift\<close>, left and right, on 32 bits. The
  block addresses of the device geometry are those of the Block Iterator, region offsets
  shifted right by the byte-to-block shift: for each of them, the conversion to a byte
  address and back yields the block address again. The shift of the iterator is the
  macro \<^verbatim>\<open>BYTE_OFFSET_FACTOR\<close> of \<^verbatim>\<open>flash.h\<close>, which is absent: the round trip is stated for
  the one fixed shift \<^verbatim>\<open>addr_shift\<close> of the claim, and for every macro whose shift count is
  at least \<^verbatim>\<open>addr_shift\<close>. (A shift count of 32 or more is undefined in C.)
\<close>

theorem blkaddr_round_trip:
  assumes "unat (di_addr_shift (devinf (ctx s))) < 32"
  shows "BLKADDR_TO_ADDR s blkaddr = push_bit (unat (di_addr_shift (devinf (ctx s)))) blkaddr \<and>
         ADDR_TO_BLKADDR s addr = drop_bit (unat (di_addr_shift (devinf (ctx s)))) addr \<and>
         (\<forall>b \<in> set (block_iterator (\<lambda>m. unat (di_addr_shift (devinf (ctx s))))
                       (devinf (ctx s))).
            ADDR_TO_BLKADDR s (BLKADDR_TO_ADDR s b) = b) \<and>
         (unat (di_addr_shift (devinf (ctx s))) \<le>
            BYTE_OFFSET_FACTOR (di_part_mode (devinf (ctx s))) \<longrightarrow>
          (\<forall>b \<in> set (block_iterator BYTE_OFFSET_FACTOR (devinf (ctx s))).
             ADDR_TO_BLKADDR s (BLKADDR_TO_ADDR s b) = b))"
proof (intro conjI impI ballI)
  show "BLKADDR_TO_ADDR s blkaddr = push_bit (unat (di_addr_shift (devinf (ctx s)))) blkaddr"
    by (simp add: BLKADDR_TO_ADDR_def)
  show "ADDR_TO_BLKADDR s addr = drop_bit (unat (di_addr_shift (devinf (ctx s)))) addr"
    by (simp add: ADDR_TO_BLKADDR_def)
  show "ADDR_TO_BLKADDR s (BLKADDR_TO_ADDR s b) = b"
    if "b \<in> set (block_iterator (\<lambda>m. unat (di_addr_shift (devinf (ctx s)))) (devinf (ctx s)))"
    for b
    using _ that by (rule block_iterator_round_trip) simp
  show "ADDR_TO_BLKADDR s (BLKADDR_TO_ADDR s b) = b"
    if "unat (di_addr_shift (devinf (ctx s))) \<le>
          BYTE_OFFSET_FACTOR (di_part_mode (devinf (ctx s)))"
      and "b \<in> set (block_iterator BYTE_OFFSET_FACTOR (devinf (ctx s)))"
    for b
    using that by (rule block_iterator_round_trip)
qed

text \<open>
  On the 16-bit device the block addresses are 0, 0x8000, 0x10000 and 0x18000; the last
  one has the byte address 0x30000, and the way back gives 0x18000.
\<close>

theorem blkaddr_round_trip_witness:
  "unat (di_addr_shift (devinf (ctx (x16_state [])))) < 32 \<and>
   block_iterator (\<lambda>m. unat (di_addr_shift (devinf (ctx (x16_state [])))))
     (devinf (ctx (x16_state []))) = [0, 0x8000, 0x10000, 0x18000] \<and>
   BLKADDR_TO_ADDR (x16_state []) 0x18000 = 0x30000 \<and>
   ADDR_TO_BLKADDR (x16_state []) 0x30000 = 0x18000 \<and>
   ADDR_TO_BLKADDR (x16_state []) (BLKADDR_TO_ADDR (x16_state []) 0x18000) = 0x18000"
proof (intro conjI)
  let ?s = "x16_state []"
  show h: "unat (di_addr_shift (devinf (ctx ?s))) < 32"
    by (simp add: devinfo_x16_def)
  show it: "block_iterator (\<lambda>m. unat (di_addr_shift (devinf (ctx ?s)))) (devinf (ctx ?s)) =
      [0, 0x8000, 0x10000, 0x18000]"
    by (simp add: block_iterator_def devinfo_x16_def region_blocks_numeral drop_bit_eq_div)
  show "BLKADDR_TO_ADDR ?s 0x18000 = 0x30000"
    by (simp add: BLKADDR_TO_ADDR_def devinfo_x16_def)
  show "ADDR_TO_BLKADDR ?s 0x30000 = 0x18000"
    by (simp add: ADDR_TO_BLKADDR_def devinfo_x16_def drop_bit_eq_div)
  have m: "0x18000 \<in> set (block_iterator (\<lambda>m. unat (di_addr_shift (devinf (ctx ?s))))
      (devinf (ctx ?s)))"
    by (simp only: it) simp
  from blkaddr_round_trip [OF h] m
  show "ADDR_TO_BLKADDR ?s (BLKADDR_TO_ADDR ?s 0x18000) = 0x18000"
    by blast
qed

section \<open>The reset before the return\<close>

text \<open>
  Lock, unlock and block erase end with the reset of their block whenever they return,
  and so does programming when it returns an error or has nothing to program.
\<close>

lemma reset_before_return:
  "(intel_lock_block blkaddr s = Inr (st1, s1) \<longrightarrow> ends_with_reset blkaddr s1) \<and>
   (intel_unlock_block blkaddr s = Inr (st2, s2) \<longrightarrow> ends_with_reset blkaddr s2) \<and>
   (intel_blk_erase_dev no_unlock blkaddr s = Inr (st3, s3) \<longrightarrow> ends_with_reset blkaddr s3) \<and>
   (intel_prog_dev mr offset srcaddr nbytes s = Inr (st4, s4) \<and> st4 \<noteq> INTEL_STATUS_READY \<longrightarrow>
      (\<exists>b. ends_with_reset b s4)) \<and>
   (addr_step (ctx s) \<noteq> 0 \<longrightarrow>
      intel_prog_dev mr offset srcaddr 0 s =
        Inr (INTEL_STATUS_READY, intel_rst_blk (ADDR_TO_BLKADDR s offset) s))"
proof (intro conjI impI)
  show "ends_with_reset blkaddr s1" if "intel_lock_block blkaddr s = Inr (st1, s1)"
    using that change_lock_block_Inr [of INTEL_SET_LOCK_BIT blkaddr s st1 s1]
    by (simp add: intel_lock_block_change_lock)
  show "ends_with_reset blkaddr s2" if "intel_unlock_block blkaddr s = Inr (st2, s2)"
    using that change_lock_block_Inr [of INTEL_CLEAR_LOCK_BITS blkaddr s st2 s2]
    by (simp add: intel_unlock_block_change_lock)
  show "ends_with_reset blkaddr s3" if "intel_blk_erase_dev no_unlock blkaddr s = Inr (st3, s3)"
    using intel_blk_erase_dev_Inr [OF that] by simp
  show "\<exists>b. ends_with_reset b s4"
    if "intel_prog_dev mr offset srcaddr nbytes s = Inr (st4, s4) \<and> st4 \<noteq> INTEL_STATUS_READY"
    using that intel_prog_dev_Inr [of mr offset srcaddr nbytes s st4 s4] by blast
  show "intel_prog_dev mr offset srcaddr 0 s =
      Inr (INTEL_STATUS_READY, intel_rst_blk (ADDR_TO_BLKADDR s offset) s)"
    if "addr_step (ctx s) \<noteq> 0"
    using that by (simp add: intel_prog_dev_def Let_def align_nbytes_def prog_loop.simps)
qed

text \<open>
  C2 asks for the reset of the block before every return of block erase, program, lock
  and unlock. \<^verbatim>\<open>intel_prog_dev\<close> does not make it on its success path: after the last unit
  it returns 0 right behind the status check. On the 16-bit device, programming two bytes
  at offset 0 from a ready device returns ready with the read-status command and the
  status read as the last events, not with the reset of block 0.
\<close>

theorem prog_dev_success_without_reset:
  "intel_prog_dev id 0 0x2000 2 (x16_state [0x80, 0x80]) =
     Inr (INTEL_STATUS_READY,
          (x16_state [])\<lparr>trace :=
             [CmdWrite 0 0x50, CmdWrite 0 0xff, StatusDelay,
              CmdWrite 0 0x40, DataWrite 0 0x2000, StatusDelay, DataRead 0,
              CmdWrite 0 0x70, DataRead 0]\<rparr>) \<and>
   \<not> ends_with_reset 0
       ((x16_state [])\<lparr>trace :=
             [CmdWrite 0 0x50, CmdWrite 0 0xff, StatusDelay,
              CmdWrite 0 0x40, DataWrite 0 0x2000, StatusDelay, DataRead 0,
              CmdWrite 0 0x70, DataRead 0]\<rparr>)"
proof
  let ?s = "x16_state [0x80, 0x80]"
  let ?s1 = "intel_rst_blk 0 ?s"
  let ?s5 = "?s1\<lparr>trace := trace ?s1 @ prog_unit_events ?s1 id 0 0x2000 (length ([] :: u32 list)),
                resp := []\<rparr>"
  have a: "ADDR_TO_BLKADDR t 0 = 0" for t by (simp add: ADDR_TO_BLKADDR_def)
  have al: "align_nbytes 2 2 = 2" by (simp add: align_nbytes_def)
  have "prog_loop id 0 0x2000 2 ?s1 =
     (let s5 = ?s5
      in if status_decode (ctx ?s1) 0x80 \<noteq> INTEL_STATUS_READY
         then Inr (status_decode (ctx ?s1) 0x80, intel_rst_blk (ADDR_TO_BLKADDR ?s1 0) s5)
         else prog_loop id (0 + ucast (addr_step (ctx ?s1)))
                (0x2000 + ucast (addr_step (ctx ?s1)))
                (2 - ucast (addr_step (ctx ?s1))) s5)"
    by (rule prog_loop_unit [where r = "0x80"]) simp_all
  moreover have "status_decode (ctx ?s1) 0x80 = INTEL_STATUS_READY"
    by (simp add: status_decode_def)
  ultimately have "prog_loop id 0 0x2000 2 ?s1 = Inr (INTEL_STATUS_READY, ?s5)"
    by (simp add: Let_def prog_loop.simps)
  then have "intel_prog_dev id 0 0x2000 2 ?s = Inr (INTEL_STATUS_READY, ?s5)"
    by (simp add: intel_prog_dev_def Let_def a al)
  moreover have "?s5 = (x16_state [])\<lparr>trace :=
             [CmdWrite 0 0x50, CmdWrite 0 0xff, StatusDelay,
              CmdWrite 0 0x40, DataWrite 0 0x2000, StatusDelay, DataRead 0,
              CmdWrite 0 0x70, DataRead 0]\<rparr>"
    by (simp add: intel_rst_blk_def intel_clear_status_def intel_status_delay_def
        fl_cmdwrite_def prog_unit_events_def a BLKADDR_TO_ADDR_def intel_cmds
        x16_state_def intel_init_dev_params_def boot_state_def drop_bit_eq_div)
  ultimately show "intel_prog_dev id 0 0x2000 2 ?s =
     Inr (INTEL_STATUS_READY,
          (x16_state [])\<lparr>trace :=
             [CmdWrite 0 0x50, CmdWrite 0 0xff, StatusDelay,
              CmdWrite 0 0x40, DataWrite 0 0x2000, StatusDelay, DataRead 0,
              CmdWrite 0 0x70, DataRead 0]\<rparr>)"
    by (simp only:)
  show "\<not> ends_with_reset 0
       ((x16_state [])\<lparr>trace :=
             [CmdWrite 0 0x50, CmdWrite 0 0xff, StatusDelay,
              CmdWrite 0 0x40, DataWrite 0 0x2000, StatusDelay, DataRead 0,
              CmdWrite 0 0x70, DataRead 0]\<rparr>)"
    by (simp add: ends_with_reset_def reset_events_def intel_cmds)
qed

section \<open>The result kinds\<close>

lemma decoded_on_tape_earlier:
  "decoded_on_tape s1 st \<Longrightarrow> ctx s1 = ctx s \<Longrightarrow> resp s = ws @ resp s1 \<Longrightarrow>
     decoded_on_tape s st"
  by (auto simp: decoded_on_tape_def list_ex_iff)

lemma poll_ready_suffix:
  "poll_ready addr s = Inr (d, s') \<Longrightarrow> \<exists>ws. resp s = ws @ resp s'"
proof (induction addr s rule: poll_ready.induct)
  case (1 addr s)
  from "1.prems" obtain r s1 where rd: "fl_read (addr s) s = Inr (r, s1)"
    by (subst (asm) poll_ready.simps) (auto split: sum.splits)
  note f = fl_read_Inr [OF rd]
  show ?case
  proof (cases "r AND sr7flag (ctx s1) \<noteq> sr7flag (ctx s1)")
    case True
    with rd "1.prems" have rec: "poll_ready addr s1 = Inr (d, s')"
      by (subst (asm) poll_ready.simps) simp
    from "1.IH" [OF rd refl True rec] obtain ws where "resp s1 = ws @ resp s'" by blast
    with f have "resp s = (r # ws) @ resp s'" by simp
    then show ?thesis by blast
  next
    case False
    with rd "1.prems" have "s' = s1"
      by (subst (asm) poll_ready.simps) simp
    with f have "resp s = [r] @ resp s'" by simp
    then show ?thesis by blast
  qed
qed

lemma intel_status_check_decoded:
  assumes "intel_status_check b s = Inr (st, s')"
  shows "(\<exists>ws. resp s = ws @ resp s') \<and> decoded_on_tape s st"
proof -
  note c = intel_status_check_Inr [OF assms]
  from c have "resp s = [hd (resp s)] @ resp s'" by simp
  then have "\<exists>ws. resp s = ws @ resp s'" by (rule exI)
  moreover from c have "hd (resp s) \<in> set (resp s)"
    by (metis list.set_intros(1))
  with c have "decoded_on_tape s st"
    by (auto simp: decoded_on_tape_def list_ex_iff)
  ultimately show ?thesis by (rule conjI)
qed

lemma change_lock_block_decoded:
  assumes "change_lock_block c b s = Inr (st, s')"
  shows "(\<exists>ws. resp s = ws @ resp s') \<and> decoded_on_tape s st"
proof -
  let ?s0 = "intel_status_delay (fl_cmdwrite b c (fl_cmdwrite b INTEL_CHANGE_LOCK s))"
  from assms obtain d s1 where p: "poll_ready (\<lambda>t. BLKADDR_TO_ADDR t b) ?s0 = Inr (d, s1)"
    by (auto simp: change_lock_block_def split: sum.splits)
  with assms obtain s2 where
    c: "intel_status_check b (intel_status_delay s1) = Inr (st, s2)" and
    s': "s' = intel_rst_blk b s2"
    by (auto simp: change_lock_block_def split: sum.splits)
  from poll_ready_suffix [OF p] obtain ws where ws: "resp s = ws @ resp s1" by auto
  have c1: "ctx s1 = ctx s" using poll_ready_blk_Inr [OF p] by simp
  from intel_status_check_decoded [OF c] obtain ws' where
    ws': "resp s1 = ws' @ resp s2" and d: "decoded_on_tape (intel_status_delay s1) st"
    by auto
  have "decoded_on_tape s st"
    using d c1 ws by (auto simp: decoded_on_tape_def list_ex_iff)
  moreover have "resp s = (ws @ ws') @ resp s'"
    using ws ws' s' by simp
  ultimately show ?thesis by blast
qed

lemma blk_erase_cmds_decoded:
  assumes "blk_erase_cmds b s = Inr (st, s')"
  shows "(\<exists>ws. resp s = ws @ resp s') \<and> decoded_on_tape s st"
proof -
  let ?s0 = "intel_status_delay
    (fl_cmdwrite b INTEL_CONFIRM (fl_cmdwrite b INTEL_BLOCK_ERASE s))"
  from assms obtain d s1 where p: "poll_ready (\<lambda>t. BLKADDR_TO_ADDR t b) ?s0 = Inr (d, s1)"
    by (auto simp: blk_erase_cmds_def Let_def split: sum.splits)
  with assms obtain s2 where
    c: "intel_status_check b s1 = Inr (st, s2)" and s': "s' = intel_rst_blk b s2"
    by (auto simp: blk_erase_cmds_def Let_def split: sum.splits)
  from poll_ready_suffix [OF p] obtain ws where ws: "resp s = ws @ resp s1" by auto
  have c1: "ctx s1 = ctx s" using poll_ready_blk_Inr [OF p] by simp
  from intel_status_check_decoded [OF c] obtain ws' where
    ws': "resp s1 = ws' @ resp s2" and d: "decoded_on_tape s1 st"
    by auto
  have "decoded_on_tape s st"
    using d c1 ws by (rule decoded_on_tape_earlier)
  moreover have "resp s = (ws @ ws') @ resp s'"
    using ws ws' s' by simp
  ultimately show ?thesis by blast
qed

lemma intel_blk_erase_dev_decoded:
  assumes "intel_blk_erase_dev nu b s = Inr (st, s')"
  shows "(\<exists>ws. resp s = ws @ resp s') \<and> decoded_on_tape s st"
proof (cases nu)
  case True
  with assms show ?thesis
    by (simp add: intel_blk_erase_dev_def blk_erase_cmds_decoded)
next
  case False
  with assms obtain ust s1 where
    u: "change_lock_block INTEL_CLEAR_LOCK_BITS b s = Inr (ust, s1)"
    by (auto simp: intel_blk_erase_dev_def intel_unlock_block_change_lock split: sum.splits)
  note u1 = change_lock_block_decoded [OF u]
  have c1: "ctx s1 = ctx s" using change_lock_block_Inr [OF u] by simp
  show ?thesis
  proof (cases "ust = INTEL_STATUS_READY")
    case True
    with assms False u have e: "blk_erase_cmds b s1 = Inr (st, s')"
      by (simp add: intel_blk_erase_dev_def intel_unlock_block_change_lock)
    from u1 obtain ws where ws: "resp s = ws @ resp s1" by auto
    from blk_erase_cmds_decoded [OF e] obtain ws' where
      ws': "resp s1 = ws' @ resp s'" and d: "decoded_on_tape s1 st"
      by auto
    have "decoded_on_tape s st" using d c1 ws by (rule decoded_on_tape_earlier)
    moreover have "resp s = (ws @ ws') @ resp s'" using ws ws' by simp
    ultimately show ?thesis by blast
  next
    case ne: False
    with assms False u have "s' = s1" "st = ust"
      by (simp_all add: intel_blk_erase_dev_def intel_unlock_block_change_lock)
    with u1 show ?thesis by simp
  qed
qed

lemma erase_each_decoded:
  "erase_each nu bs s = Inr (st, s') \<Longrightarrow>
     (\<exists>ws. resp s = ws @ resp s') \<and> decoded_on_tape s st"
proof (induction bs arbitrary: s)
  case Nil
  then show ?case by (simp add: decoded_on_tape_def)
next
  case (Cons b bs)
  from Cons.prems obtain st1 s1 where e: "intel_blk_erase_dev nu b s = Inr (st1, s1)"
    by (auto split: sum.splits)
  note d1 = intel_blk_erase_dev_decoded [OF e]
  have c1: "ctx s1 = ctx s" using intel_blk_erase_dev_Inr [OF e] by simp
  show ?case
  proof (cases "st1 = INTEL_STATUS_READY")
    case True
    with Cons.prems e have r: "erase_each nu bs s1 = Inr (st, s')" by simp
    from d1 obtain ws where ws: "resp s = ws @ resp s1" by auto
    from Cons.IH [OF r] obtain ws' where
      ws': "resp s1 = ws' @ resp s'" and d: "decoded_on_tape s1 st"
      by auto
    have "decoded_on_tape s st" using d c1 ws by (rule decoded_on_tape_earlier)
    moreover have "resp s = (ws @ ws') @ resp s'" using ws ws' by simp
    ultimately show ?thesis by blast
  next
    case False
    with Cons.prems e have "s' = s1" "st = st1" by simp_all
    with d1 show ?thesis by simp
  qed
qed

lemma prog_loop_decoded:
  "prog_loop mr offset srcaddr nbytes s = Inr (st, s') \<Longrightarrow>
     (\<exists>ws. resp s = ws @ resp s') \<and> decoded_on_tape s st"
proof (induction mr offset srcaddr nbytes s rule: prog_loop.induct)
  case (1 mr offset srcaddr nbytes s)
  show ?case
  proof (cases "nbytes = 0")
    case True
    with "1.prems" have "st = INTEL_STATUS_READY" "s' = s"
      by (subst (asm) prog_loop.simps, simp)+
    then show ?thesis by (simp add: decoded_on_tape_def)
  next
    case False
    let ?s3 = "intel_status_delay (fl_write offset (mr srcaddr)
      (fl_cmdwrite (drop_bit (unat (addr_shift (ctx s))) offset) INTEL_PROGRAM_WORD s))"
    from False "1.prems" obtain d s4 where p: "poll_ready (\<lambda>t. offset) ?s3 = Inr (d, s4)"
      by (subst (asm) prog_loop.simps) (auto simp: Let_def split: sum.splits)
    with False "1.prems" obtain st5 s5 where
      c: "intel_status_check (ADDR_TO_BLKADDR s4 offset) s4 = Inr (st5, s5)"
      by (subst (asm) prog_loop.simps) (auto simp: Let_def split: sum.splits)
    have c4: "ctx s4 = ctx s" using poll_ready_const_Inr [OF p] by simp
    have c5: "ctx s5 = ctx s4" using intel_status_check_Inr [OF c] by simp
    from poll_ready_suffix [OF p] obtain ws where ws: "resp s = ws @ resp s4" by auto
    from intel_status_check_decoded [OF c] obtain ws' where
      ws': "resp s4 = ws' @ resp s5" and d5: "decoded_on_tape s4 st5"
      by auto
    show ?thesis
    proof (cases "st5 = INTEL_STATUS_READY")
      case False
      with \<open>nbytes \<noteq> 0\<close> p c "1.prems" have
        "s' = intel_rst_blk (ADDR_TO_BLKADDR s5 offset) s5" "st = st5"
        by (subst (asm) prog_loop.simps, simp add: Let_def)+
      moreover have "decoded_on_tape s st5" using d5 c4 ws by (rule decoded_on_tape_earlier)
      moreover have "resp s = (ws @ ws') @ resp s5" using ws ws' by simp
      ultimately show ?thesis by auto
    next
      case ready: True
      with \<open>nbytes \<noteq> 0\<close> p c "1.prems" have
        "prog_loop mr (offset + ucast (addr_step (ctx s5)))
           (srcaddr + ucast (addr_step (ctx s5)))
           (nbytes - ucast (addr_step (ctx s5))) s5 = Inr (st, s')"
        by (subst (asm) prog_loop.simps) (simp add: Let_def)
      moreover from ready have "\<not> st5 \<noteq> INTEL_STATUS_READY" by simp
      ultimately have "(\<exists>ws. resp s5 = ws @ resp s') \<and> decoded_on_tape s5 st"
        by (rule "1.IH" [OF False refl refl refl refl p refl c refl, rotated])
      then obtain ws'' where ws'': "resp s5 = ws'' @ resp s'" and d: "decoded_on_tape s5 st"
        by auto
      have "resp s = (ws @ ws') @ resp s5" using ws ws' by simp
      with d c4 c5 have "decoded_on_tape s st"
        by (intro decoded_on_tape_earlier [of s5 st s "ws @ ws'"]) simp_all
      moreover have "resp s = (ws @ ws' @ ws'') @ resp s'" using ws ws' ws'' by simp
      ultimately show ?thesis by blast
    qed
  qed
qed

lemma intel_prog_dev_decoded:
  assumes "intel_prog_dev mr offset srcaddr nbytes s = Inr (st, s')"
  shows "decoded_on_tape s st"
proof -
  let ?s1 = "intel_rst_blk (ADDR_TO_BLKADDR s offset) s"
  from assms have "prog_loop mr offset srcaddr (align_nbytes (addr_step (ctx ?s1)) nbytes) ?s1 =
      Inr (st, s')"
    by (auto simp: intel_prog_dev_def Let_def split: if_splits)
  from prog_loop_decoded [OF this] show ?thesis
    by (simp add: decoded_on_tape_def)
qed

lemma intel_erase_dev_decoded:
  assumes "intel_erase_dev nu f s = Inr (st, s')"
  shows "decoded_on_tape s st"
  using assms erase_each_decoded [of nu _ s st s']
  by (simp add: intel_erase_dev_def erase_dev_regions_eq)

text \<open>
  C3, as the code has it. The decoded result is one of six mutually exclusive kinds, not
  five: each of ready, sequence error, erase error, program error, voltage error and lock
  error is returned under exactly one condition on the status word, and the six
  conditions exclude one another and cover every status word. With the erase-error mask
  clear, a set voltage-error mask is reported as the program error; the voltage error is
  what the decoder returns when the program-suspend mask is set and the erase-error,
  program-error and voltage-error masks are not. No operation returns a kind outside the
  six: whatever an operation returns is ready or the decoder's result on a status word
  that the device answered.
\<close>

theorem status_decode_six_kinds:
  "(status_decode c status = INTEL_STATUS_READY \<longleftrightarrow>
      status AND sr5flag c \<noteq> sr5flag c \<and> status AND sr4flag c \<noteq> sr4flag c \<and>
      status AND sr3flag c \<noteq> sr3flag c \<and> status AND sr2flag c \<noteq> sr2flag c \<and>
      status AND sr1flag c \<noteq> sr1flag c) \<and>
   (status_decode c status = INTEL_STATUS_CMDSEQ_ERR \<longleftrightarrow>
      status AND sr5flag c = sr5flag c \<and> status AND sr4flag c = sr4flag c) \<and>
   (status_decode c status = INTEL_STATUS_ERASE_ERR \<longleftrightarrow>
      status AND sr5flag c = sr5flag c \<and> status AND sr4flag c \<noteq> sr4flag c) \<and>
   (status_decode c status = INTEL_STATUS_PROG_ERR \<longleftrightarrow>
      status AND sr5flag c \<noteq> sr5flag c \<and>
      (status AND sr4flag c = sr4flag c \<or> status AND sr3flag c = sr3flag c)) \<and>
   (status_decode c status = INTEL_STATUS_VOLTAGE_ERR \<longleftrightarrow>
      status AND sr5flag c \<noteq> sr5flag c \<and> status AND sr4flag c \<noteq> sr4flag c \<and>
      status AND sr3flag c \<noteq> sr3flag c \<and> status AND sr2flag c = sr2flag c) \<and>
   (status_decode c status = INTEL_STATUS_LOCK_ERR \<longleftrightarrow>
      status AND sr5flag c \<noteq> sr5flag c \<and> status AND sr4flag c \<noteq> sr4flag c \<and>
      status AND sr3flag c \<noteq> sr3flag c \<and> status AND sr2flag c \<noteq> sr2flag c \<and>
      status AND sr1flag c = sr1flag c) \<and>
   status_decode c status \<in>
     {INTEL_STATUS_READY, INTEL_STATUS_CMDSEQ_ERR, INTEL_STATUS_ERASE_ERR,
      INTEL_STATUS_PROG_ERR, INTEL_STATUS_VOLTAGE_ERR, INTEL_STATUS_LOCK_ERR} \<and>
   (intel_status_check blkaddr s = Inr (st1, s1) \<longrightarrow> decoded_on_tape s st1) \<and>
   (intel_lock_block blkaddr s = Inr (st2, s2) \<longrightarrow> decoded_on_tape s st2) \<and>
   (intel_unlock_block blkaddr s = Inr (st3, s3) \<longrightarrow> decoded_on_tape s st3) \<and>
   (intel_blk_erase_dev no_unlock blkaddr s = Inr (st4, s4) \<longrightarrow> decoded_on_tape s st4) \<and>
   (intel_erase_dev no_unlock bof s = Inr (st5, s5) \<longrightarrow> decoded_on_tape s st5) \<and>
   (intel_prog_dev mr offset srcaddr nbytes s = Inr (st6, s6) \<longrightarrow> decoded_on_tape s st6)"
proof (intro conjI impI)
  show "status_decode c status = INTEL_STATUS_READY \<longleftrightarrow>
      status AND sr5flag c \<noteq> sr5flag c \<and> status AND sr4flag c \<noteq> sr4flag c \<and>
      status AND sr3flag c \<noteq> sr3flag c \<and> status AND sr2flag c \<noteq> sr2flag c \<and>
      status AND sr1flag c \<noteq> sr1flag c"
    by (simp add: status_decode_def)
  show "status_decode c status = INTEL_STATUS_CMDSEQ_ERR \<longleftrightarrow>
      status AND sr5flag c = sr5flag c \<and> status AND sr4flag c = sr4flag c"
    by (simp add: status_decode_def)
  show "status_decode c status = INTEL_STATUS_ERASE_ERR \<longleftrightarrow>
      status AND sr5flag c = sr5flag c \<and> status AND sr4flag c \<noteq> sr4flag c"
    by (simp add: status_decode_def)
  show "status_decode c status = INTEL_STATUS_PROG_ERR \<longleftrightarrow>
      status AND sr5flag c \<noteq> sr5flag c \<and>
      (status AND sr4flag c = sr4flag c \<or> status AND sr3flag c = sr3flag c)"
    by (simp add: status_decode_def)
  show "status_decode c status = INTEL_STATUS_VOLTAGE_ERR \<longleftrightarrow>
      status AND sr5flag c \<noteq> sr5flag c \<and> status AND sr4flag c \<noteq> sr4flag c \<and>
      status AND sr3flag c \<noteq> sr3flag c \<and> status AND sr2flag c = sr2flag c"
    by (simp add: status_decode_def)
  show "status_decode c status = INTEL_STATUS_LOCK_ERR \<longleftrightarrow>
      status AND sr5flag c \<noteq> sr5flag c \<and> status AND sr4flag c \<noteq> sr4flag c \<and>
      status AND sr3flag c \<noteq> sr3flag c \<and> status AND sr2flag c \<noteq> sr2flag c \<and>
      status AND sr1flag c = sr1flag c"
    by (simp add: status_decode_def)
  show "status_decode c status \<in>
     {INTEL_STATUS_READY, INTEL_STATUS_CMDSEQ_ERR, INTEL_STATUS_ERASE_ERR,
      INTEL_STATUS_PROG_ERR, INTEL_STATUS_VOLTAGE_ERR, INTEL_STATUS_LOCK_ERR}"
    by (simp add: status_decode_def)
  show "decoded_on_tape s st1" if "intel_status_check blkaddr s = Inr (st1, s1)"
    using intel_status_check_decoded [OF that] by simp
  show "decoded_on_tape s st2" if "intel_lock_block blkaddr s = Inr (st2, s2)"
    using that change_lock_block_decoded [of INTEL_SET_LOCK_BIT blkaddr s st2 s2]
    by (simp add: intel_lock_block_change_lock)
  show "decoded_on_tape s st3" if "intel_unlock_block blkaddr s = Inr (st3, s3)"
    using that change_lock_block_decoded [of INTEL_CLEAR_LOCK_BITS blkaddr s st3 s3]
    by (simp add: intel_unlock_block_change_lock)
  show "decoded_on_tape s st4" if "intel_blk_erase_dev no_unlock blkaddr s = Inr (st4, s4)"
    using intel_blk_erase_dev_decoded [OF that] by simp
  show "decoded_on_tape s st5" if "intel_erase_dev no_unlock bof s = Inr (st5, s5)"
    using that by (rule intel_erase_dev_decoded)
  show "decoded_on_tape s st6" if "intel_prog_dev mr offset srcaddr nbytes s = Inr (st6, s6)"
    using that by (rule intel_prog_dev_decoded)
qed

text \<open>
  On the 16-bit device each of the six kinds is produced: by the status words 0x80, 0xb0,
  0xa0, 0x90 (and 0x88, the voltage-error bit), 0x84 and 0x82. And a lock of block 2 on
  which the device answers the status word 0x84 returns the voltage error.
\<close>

theorem status_decode_six_kinds_witness:
  "status_decode (ctx (x16_state [])) 0x80 = INTEL_STATUS_READY \<and>
   status_decode (ctx (x16_state [])) 0xb0 = INTEL_STATUS_CMDSEQ_ERR \<and>
   status_decode (ctx (x16_state [])) 0xa0 = INTEL_STATUS_ERASE_ERR \<and>
   status_decode (ctx (x16_state [])) 0x90 = INTEL_STATUS_PROG_ERR \<and>
   status_decode (ctx (x16_state [])) 0x88 = INTEL_STATUS_PROG_ERR \<and>
   status_decode (ctx (x16_state [])) 0x84 = INTEL_STATUS_VOLTAGE_ERR \<and>
   status_decode (ctx (x16_state [])) 0x82 = INTEL_STATUS_LOCK_ERR \<and>
   (\<exists>s'. intel_lock_block 2 (x16_state [0x80, 0x84]) = Inr (INTEL_STATUS_VOLTAGE_ERR, s')) \<and>
   decoded_on_tape (x16_state [0x80, 0x84]) INTEL_STATUS_VOLTAGE_ERR"
proof (intro conjI)
  let ?c = "ctx (x16_state [])"
  show "status_decode ?c 0x80 = INTEL_STATUS_READY"
    using status_decode_six_kinds [of ?c "0x80"] by simp
  show "status_decode ?c 0xb0 = INTEL_STATUS_CMDSEQ_ERR"
    using status_decode_six_kinds [of ?c "0xb0"] by simp
  show "status_decode ?c 0xa0 = INTEL_STATUS_ERASE_ERR"
    using status_decode_six_kinds [of ?c "0xa0"] by simp
  show "status_decode ?c 0x90 = INTEL_STATUS_PROG_ERR"
    using status_decode_six_kinds [of ?c "0x90"] by simp
  show "status_decode ?c 0x88 = INTEL_STATUS_PROG_ERR"
    using status_decode_six_kinds [of ?c "0x88"] by simp
  show v: "status_decode ?c 0x84 = INTEL_STATUS_VOLTAGE_ERR"
    using status_decode_six_kinds [of ?c "0x84"] by simp
  show "status_decode ?c 0x82 = INTEL_STATUS_LOCK_ERR"
    using status_decode_six_kinds [of ?c "0x82"] by simp
  let ?s = "x16_state [0x80, 0x84]"
  have c: "ctx ?s = ?c"
    by (simp add: x16_state_def intel_init_dev_params_def boot_state_def)
  have "change_lock_block INTEL_SET_LOCK_BIT 2 ?s =
      Inr (status_decode (ctx ?s) 0x84,
           ?s\<lparr>trace := trace ?s @
                 [CmdWrite 2 INTEL_CHANGE_LOCK, CmdWrite 2 INTEL_SET_LOCK_BIT, StatusDelay] @
                 replicate (Suc (length ([] :: u32 list))) (DataRead (BLKADDR_TO_ADDR ?s 2)) @
                 [StatusDelay, CmdWrite 2 INTEL_READ_STATUS, DataRead (BLKADDR_TO_ADDR ?s 2)] @
                 reset_events 2,
             resp := []\<rparr>)"
    by (rule change_lock_block_tape [where r = "0x80"]) simp_all
  with v c obtain s' where l: "intel_lock_block 2 ?s = Inr (INTEL_STATUS_VOLTAGE_ERR, s')"
    by (simp add: intel_lock_block_change_lock)
  then show "\<exists>s'. intel_lock_block 2 ?s = Inr (INTEL_STATUS_VOLTAGE_ERR, s')" by blast
  from status_decode_six_kinds
    [where blkaddr = 2 and s = ?s and ?st2.0 = INTEL_STATUS_VOLTAGE_ERR and ?s2.0 = s'] l
  show "decoded_on_tape ?s INTEL_STATUS_VOLTAGE_ERR" by blast
qed

text \<open>
  Against C3 as stated: on the status word 0x84 (ready, with the program-suspend bit) the
  decoder returns the voltage error, a kind outside the five of the claim.
\<close>

theorem status_decode_voltage_counterexample:
  "status_decode (ctx (x16_state [])) 0x84 \<notin>
     {INTEL_STATUS_READY, INTEL_STATUS_CMDSEQ_ERR, INTEL_STATUS_ERASE_ERR,
      INTEL_STATUS_PROG_ERR, INTEL_STATUS_LOCK_ERR}"
  by (simp add: status_decode_def)

end
